theory Spec2Isabelle
  imports Main "HOL-Library.Word"
begin

section \<open>The V(R) I/O scheduler (block/vr-iosched.c)\<close>

text \<open>
  The source file holds the elevator's private data (\<open>struct sio_data\<close>), the merge
  function \<open>sio_merged_requests\<close>, the add hook \<open>vr_add_request\<close>, \<open>vr_queue_empty\<close>,
  \<open>vr_exit_queue\<close>, \<open>vr_init_queue\<close> and the sysfs show and store functions with
  their attribute table. The elevator's operation table also names \<open>vr_merge\<close>,
  \<open>vr_merged_request\<close>, \<open>vr_merged_requests\<close> and the dispatch hook
  \<open>vr_dispatch_requests\<close>, which the file defines nowhere; the kernel's list, time and
  request macros are used and not defined here either.

  Functions that the file defines are translated statement by statement. What the file
  only names is modelled separately, each such definition saying so in its comment.
\<close>

subsection \<open>Requests and the elevator's private data\<close>

text \<open>\<open>enum { ASYNC, SYNC }\<close> indexes the first dimension of the fifo arrays, the data
  direction of a request (\<open>rq_data_dir\<close>) the second.\<close>

datatype sync_class = ASYNC | SYNC

datatype data_dir = READ | WRITE

text \<open>
  A \<open>struct request\<close>, reduced to what the scheduler reads and writes: its start sector,
  its direction, its synchronicity and the expire time that \<open>rq_set_fifo_time\<close> stores
  in it and \<open>rq_fifo_time\<close> reads back. The kernel keeps the expire time in the pointer
  \<open>csd.list.next\<close> of the request; \<open>rq_csd_list\<close> is the address of the node
  \<open>csd.list\<close>, the value that \<open>INIT_LIST_HEAD(&rq->csd.list)\<close> writes into that
  pointer. Both are \<open>unsigned long\<close> values of the target's word size, so the record
  is generic in their type and the functions below use it at \<open>'l word\<close>. A request is
  referred to by its address, a natural number.
\<close>

record 't request =
  rq_pos :: nat
  rq_data_dir :: data_dir
  rq_is_sync :: sync_class
  rq_fifo_time :: "'t"
  rq_csd_list :: "'t"

text \<open>The head direction recorded with the last dispatch; no direction before the first.\<close>

datatype head_direction = NoDir | Forward | Backward

text \<open>
  The private data of one queue. The file declares \<open>struct sio_data\<close> with the fields
  \<open>fifo_list[2][2]\<close>, \<open>batched\<close>, \<open>starved\<close>, \<open>fifo_expire[2][2]\<close>,
  \<open>fifo_batch\<close> and \<open>writes_starved\<close>; \<open>vr_init_queue\<close>, \<open>vr_exit_queue\<close>,
  \<open>vr_queue_empty\<close> and the sysfs functions reach the same memory
  (\<open>elevator_data\<close>) through \<open>struct vr_data\<close>, which the file does not declare, and
  use its fields \<open>sort_list\<close> and \<open>rev_penalty\<close> beside those above. The record has
  the fields of both. The red-black tree \<open>sort_list\<close> is the list of the requests it
  holds (the root of the zero-filled allocation is the empty tree \<open>RB_ROOT\<close>). A fifo
  list is the state of its head and the list of the entries linked behind it: the head of
  a zero-filled allocation has \<open>next = prev = NULL\<close> and is no list, empty or other,
  until \<open>INIT_LIST_HEAD\<close> makes it point to itself. The functions that link and unlink
  entries act on the entries. Linking into a head that was never initialised dereferences
  \<open>NULL\<close> in C; the model does not represent that fault and links the entry all the
  same. The last dispatched sector
  and direction belong to the selection state that the dispatch hook keeps.
\<close>

datatype head_state = HEAD_ZEROED | HEAD_LINKED

record vr_data =
  sort_list :: "nat list"
  fifo_list :: "sync_class \<Rightarrow> data_dir \<Rightarrow> nat list"
  fifo_head :: "sync_class \<Rightarrow> data_dir \<Rightarrow> head_state"
  batched :: nat
  starved :: nat
  fifo_expire :: "sync_class \<Rightarrow> data_dir \<Rightarrow> int"
  fifo_batch :: int
  writes_starved :: int
  rev_penalty :: int
  last_sector :: nat
  last_dir :: head_direction

text \<open>A request queue: the elevator's data and the memory of the requests.\<close>

record 't request_queue =
  elevator_data :: vr_data
  rq :: "nat \<Rightarrow> 't request"

subsection \<open>Kernel list and time primitives\<close>

text \<open>
  The four fifo lists in the order \<open>[SYNC][READ]\<close>, \<open>[SYNC][WRITE]\<close>,
  \<open>[ASYNC][READ]\<close>, \<open>[ASYNC][WRITE]\<close>.
\<close>

definition fifo_lists :: "vr_data \<Rightarrow> nat list list" where
  "fifo_lists vd =
     [fifo_list vd SYNC READ, fifo_list vd SYNC WRITE,
      fifo_list vd ASYNC READ, fifo_list vd ASYNC WRITE]"

text \<open>
  \<open>!list_empty(&rq->queuelist)\<close>: the request's list node is linked into a list. The
  only lists of this model are the fifo lists.
\<close>

definition on_fifo :: "vr_data \<Rightarrow> nat \<Rightarrow> bool" where
  "on_fifo vd r = (r \<in> set (concat (fifo_lists vd)))"

text \<open>\<open>list_del\<close> unlinks an entry from the list it is on.\<close>

definition list_del :: "nat \<Rightarrow> (sync_class \<Rightarrow> data_dir \<Rightarrow> nat list) \<Rightarrow>
    (sync_class \<Rightarrow> data_dir \<Rightarrow> nat list)" where
  "list_del e fl = (\<lambda>s d. removeAll e (fl s d))"

text \<open>\<open>list_add(new, at)\<close> links \<open>new\<close> right behind the entry \<open>at\<close>.\<close>

fun add_behind :: "nat \<Rightarrow> nat \<Rightarrow> nat list \<Rightarrow> nat list" where
  "add_behind new at [] = []"
| "add_behind new at (x # xs) =
     (if x = at then x # new # xs else x # add_behind new at xs)"

definition list_add :: "nat \<Rightarrow> nat \<Rightarrow> (sync_class \<Rightarrow> data_dir \<Rightarrow> nat list) \<Rightarrow>
    (sync_class \<Rightarrow> data_dir \<Rightarrow> nat list)" where
  "list_add new at fl = (\<lambda>s d. add_behind new at (fl s d))"

text \<open>\<open>list_move(e, at)\<close> is \<open>list_del(e)\<close> followed by \<open>list_add(e, at)\<close>.\<close>

definition list_move :: "nat \<Rightarrow> nat \<Rightarrow> (sync_class \<Rightarrow> data_dir \<Rightarrow> nat list) \<Rightarrow>
    (sync_class \<Rightarrow> data_dir \<Rightarrow> nat list)" where
  "list_move e at fl = list_add e at (list_del e fl)"

text \<open>\<open>list_add_tail(new, head)\<close> links \<open>new\<close> as the last entry of the list.\<close>

definition list_add_tail :: "nat \<Rightarrow> nat list \<Rightarrow> nat list" where
  "list_add_tail new xs = xs @ [new]"

text \<open>
  \<open>INIT_LIST_HEAD(&vd->fifo_list[s][d])\<close> makes the head an empty list;
  \<open>list_empty\<close> tests \<open>head->next == head\<close>, which holds of an initialised head
  with no entry and not of a zeroed one.
\<close>

definition INIT_LIST_HEAD :: "sync_class \<Rightarrow> data_dir \<Rightarrow> vr_data \<Rightarrow> vr_data" where
  "INIT_LIST_HEAD s d vd =
     vd\<lparr>fifo_list := (fifo_list vd)(s := (fifo_list vd s)(d := [])),
        fifo_head := (fifo_head vd)(s := (fifo_head vd s)(d := HEAD_LINKED))\<rparr>"

definition list_empty :: "vr_data \<Rightarrow> sync_class \<Rightarrow> data_dir \<Rightarrow> bool" where
  "list_empty vd s d = (fifo_head vd s d = HEAD_LINKED \<and> fifo_list vd s d = [])"

text \<open>
  \<open>time_before(a, b)\<close> of the kernel, \<open>(long)(a) - (long)(b) < 0\<close>: the difference
  of the two \<open>unsigned long\<close> values wraps around and is read as a signed number.
\<close>

definition time_before :: "'l::len word \<Rightarrow> 'l word \<Rightarrow> bool" where
  "time_before a b = (sint (a - b) < 0)"

text \<open>
  \<open>rq_fifo_clear(rq)\<close> of the kernel:
  \<^verbatim>\<open>list_del_init(&(rq)->queuelist); INIT_LIST_HEAD(&(rq)->csd.list);\<close>
  The request leaves its fifo list, and the pointer that held its expire time is
  overwritten with the address of the node \<open>csd.list\<close>.
\<close>

definition rq_fifo_clear :: "nat \<Rightarrow> 't request_queue \<Rightarrow> 't request_queue" where
  "rq_fifo_clear r q =
     q\<lparr>elevator_data := (elevator_data q)\<lparr>fifo_list := list_del r (fifo_list (elevator_data q))\<rparr>,
       rq := (rq q)(r := (rq q r)\<lparr>rq_fifo_time := rq_csd_list (rq q r)\<rparr>)\<rparr>"

text \<open>\<open>rq_set_fifo_time(rq, exp)\<close> stores the expire time in the request.\<close>

definition rq_set_fifo_time :: "nat \<Rightarrow> 't \<Rightarrow> 't request_queue \<Rightarrow> 't request_queue" where
  "rq_set_fifo_time r exp q = q\<lparr>rq := (rq q)(r := (rq q r)\<lparr>rq_fifo_time := exp\<rparr>)\<rparr>"

subsection \<open>The functions of the file\<close>

text \<open>
  \<open>sio_merged_requests(q, rq, next)\<close>: if both requests are on a fifo list and \<open>next\<close>
  expires before \<open>rq\<close>, \<open>rq\<close> is moved behind \<open>next\<close> and takes its expire time;
  then \<open>next\<close> is taken off its list. The function returns nothing and touches
  neither \<open>sort_list\<close> nor any counter.
\<close>

definition sio_merged_requests ::
    "nat \<Rightarrow> nat \<Rightarrow> ('l::len word) request_queue \<Rightarrow> ('l word) request_queue" where
  "sio_merged_requests r nxt q =
     (let q1 =
        (if on_fifo (elevator_data q) r \<and> on_fifo (elevator_data q) nxt then
           (if time_before (rq_fifo_time (rq q nxt)) (rq_fifo_time (rq q r)) then
              rq_set_fifo_time r (rq_fifo_time (rq q nxt))
                (q\<lparr>elevator_data := (elevator_data q)
                     \<lparr>fifo_list := list_move r nxt (fifo_list (elevator_data q))\<rparr>\<rparr>)
            else q)
         else q)
      in rq_fifo_clear nxt q1)"

text \<open>
  \<open>vr_add_request(q, rq)\<close>. Between its declarations and its last two statements the
  body in the file repeats the header of the function and the body of
  \<open>sio_merged_requests\<close> (which speaks of a request \<open>next\<close> that this function does not
  have); the statements of the function itself are the declarations of \<open>sd\<close>, \<open>sync\<close>
  and \<open>data_dir\<close> and
  \<^verbatim>\<open>rq_set_fifo_time(rq, jiffies + sd->fifo_expire[sync][data_dir]);\<close>
  \<^verbatim>\<open>list_add_tail(&rq->queuelist, &sd->fifo_list[sync][data_dir]);\<close>
  The comment above them announces "add rq to rbtree and fifo"; no statement of the file
  inserts into \<open>sort_list\<close>. The sum is taken in \<open>unsigned long\<close>: the \<open>int\<close>
  duration is converted to the word and the addition wraps around.
\<close>

definition vr_add_request ::
    "'l::len word \<Rightarrow> nat \<Rightarrow> ('l word) request_queue \<Rightarrow> ('l word) request_queue" where
  "vr_add_request jiffies r q =
     (let sd = elevator_data q;
          sync = rq_is_sync (rq q r);
          data_dir = rq_data_dir (rq q r);
          q1 = rq_set_fifo_time r (jiffies + word_of_int (fifo_expire sd sync data_dir)) q
      in q1\<lparr>elevator_data := sd
             \<lparr>fifo_list := (fifo_list sd)
                (sync := (fifo_list sd sync)
                   (data_dir := list_add_tail r (fifo_list sd sync data_dir)))\<rparr>\<rparr>)"

text \<open>\<open>vr_queue_empty\<close>: \<open>RB_EMPTY_ROOT(&vd->sort_list)\<close>.\<close>

definition vr_queue_empty :: "vr_data \<Rightarrow> bool" where
  "vr_queue_empty vd = (sort_list vd = [])"

text \<open>
  \<open>vr_exit_queue\<close>: \<open>BUG_ON(!RB_EMPTY_ROOT(&vd->sort_list))\<close>, then \<open>kfree(vd)\<close>.
  \<open>BUG\<close> stops the kernel with the data as it stands; otherwise the data is freed.
\<close>

datatype exit_result = BUG vr_data | Freed

definition vr_exit_queue :: "vr_data \<Rightarrow> exit_result" where
  "vr_exit_queue vd = (if \<not> sort_list vd = [] then BUG vd else Freed)"

text \<open>
  The file-scope tunables that \<open>vr_init_queue\<close> copies. \<open>fifo_batch\<close> is defined in
  the file (8); \<open>sync_expire\<close>, \<open>async_expire\<close> and \<open>rev_penalty\<close> are used and
  not defined there, so they are parameters.
\<close>

definition fifo_batch_tunable :: int where
  "fifo_batch_tunable = 8"

record vr_tunables =
  sync_expire :: int
  async_expire :: int
  rev_penalty_tunable :: int

text \<open>
  The memory \<open>kmalloc_node(..., GFP_KERNEL | __GFP_ZERO, ...)\<close> returns when it
  succeeds: every field zero. No entry is linked anywhere and every list head is zeroed,
  not initialised; the zeroed tree root is the empty tree.
\<close>

definition zeroed_vr_data :: vr_data where
  "zeroed_vr_data =
     \<lparr>sort_list = [], fifo_list = (\<lambda>s d. []), fifo_head = (\<lambda>s d. HEAD_ZEROED),
      batched = 0, starved = 0,
      fifo_expire = (\<lambda>s d. 0), fifo_batch = 0, writes_starved = 0, rev_penalty = 0,
      last_sector = 0, last_dir = NoDir\<rparr>"

text \<open>
  \<open>vr_init_queue\<close>: \<open>NULL\<close> when the allocation fails (the argument says whether it
  succeeds), else the zeroed data after
  \<^verbatim>\<open>INIT_LIST_HEAD(&vd->fifo_list[SYNC]); INIT_LIST_HEAD(&vd->fifo_list[ASYNC]);\<close>
  \<^verbatim>\<open>vd->sort_list = RB_ROOT;\<close>
  \<^verbatim>\<open>vd->fifo_expire[SYNC] = sync_expire; vd->fifo_expire[ASYNC] = async_expire;\<close>
  \<^verbatim>\<open>vd->fifo_batch = fifo_batch; vd->rev_penalty = rev_penalty;\<close>
  The function indexes \<open>fifo_list\<close> and \<open>fifo_expire\<close> by the synchronicity alone.
  Each \<open>INIT_LIST_HEAD\<close> is given one address, that of the row of the class, where its
  first head \<open>fifo_list[s][READ]\<close> lies, and initialises that one head; each assignment
  writes one \<open>int\<close>, the first of the row. The heads and durations of the write
  direction, \<open>writes_starved\<close> and the counters keep the zero of the allocation.
\<close>

definition vr_init_queue :: "bool \<Rightarrow> vr_tunables \<Rightarrow> vr_data option" where
  "vr_init_queue alloc_ok t =
     (if \<not> alloc_ok then None
      else
        (let vd0 = zeroed_vr_data;
             vd1 = INIT_LIST_HEAD SYNC READ vd0;
             vd2 = INIT_LIST_HEAD ASYNC READ vd1;
             vd3 = vd2\<lparr>sort_list := []\<rparr>;
             vd4 = vd3\<lparr>fifo_expire := (fifo_expire vd3)
                      (SYNC := (fifo_expire vd3 SYNC)(READ := sync_expire t))\<rparr>;
             vd5 = vd4\<lparr>fifo_expire := (fifo_expire vd4)
                      (ASYNC := (fifo_expire vd4 ASYNC)(READ := async_expire t))\<rparr>;
             vd6 = vd5\<lparr>fifo_batch := fifo_batch_tunable\<rparr>;
             vd7 = vd6\<lparr>rev_penalty := rev_penalty_tunable t\<rparr>
         in Some vd7))"

subsection \<open>The sysfs attributes\<close>

text \<open>\<open>vr_var_show\<close> prints the \<open>int\<close> it is given; the model returns the number.\<close>

definition vr_var_show :: "int \<Rightarrow> int" where
  "vr_var_show var = var"

text \<open>
  \<open>vr_var_store\<close>: \<open>*var = simple_strtol(page, NULL, 10); return count;\<close>. The first
  argument is the \<open>long\<close> that \<open>simple_strtol\<close> returns for the page; assigning it to
  an \<open>int\<close> keeps its low 32 bits, read as a signed number.
\<close>

definition INT_MAX :: int where
  "INT_MAX = 2147483647"

definition long_to_int :: "int \<Rightarrow> int" where
  "long_to_int v = sint (word_of_int v :: 32 word)"

definition vr_var_store :: "int \<Rightarrow> nat \<Rightarrow> int \<times> nat" where
  "vr_var_store parsed count = (long_to_int parsed, count)"

text \<open>
  The macro \<open>SHOW_FUNCTION(__FUNC, __VAR, __CONV)\<close>: the variable, converted by
  \<open>jiffies_to_msecs\<close> when \<open>__CONV\<close> is set. The conversions between milliseconds and
  jiffies are kernel functions that depend on \<open>HZ\<close>; they are parameters here, present
  exactly when \<open>__CONV\<close> is 1.
\<close>

definition SHOW_FUNCTION :: "int \<Rightarrow> (int \<Rightarrow> int) option \<Rightarrow> int" where
  "SHOW_FUNCTION var conv =
     (let data = var;
          data = (case conv of Some jiffies_to_msecs \<Rightarrow> jiffies_to_msecs data | None \<Rightarrow> data)
      in vr_var_show data)"

text \<open>
  The macro \<open>STORE_FUNCTION(__FUNC, __PTR, MIN, MAX, __CONV)\<close>: parse, clamp into
  \<open>MIN .. MAX\<close>, convert by \<open>msecs_to_jiffies\<close> when \<open>__CONV\<close> is set, assign through
  the pointer (here: a function that writes the field) and return what \<open>vr_var_store\<close>
  returned, the byte count. No path returns an error.
\<close>

definition STORE_FUNCTION ::
    "(int \<Rightarrow> vr_data \<Rightarrow> vr_data) \<Rightarrow> int \<Rightarrow> int \<Rightarrow> (int \<Rightarrow> int) option \<Rightarrow>
     int \<Rightarrow> nat \<Rightarrow> vr_data \<Rightarrow> vr_data \<times> nat" where
  "STORE_FUNCTION assign lo hi conv parsed count vd =
     (let (data, ret) = vr_var_store parsed count;
          data = (if data < lo then lo else if data > hi then hi else data)
      in (case conv of
            Some msecs_to_jiffies \<Rightarrow> (assign (msecs_to_jiffies data) vd, ret)
          | None \<Rightarrow> (assign data vd, ret)))"

text \<open>
  The eight instances. \<open>vd->fifo_expire[SYNC]\<close> is one \<open>int\<close>, the first of the row
  of the class as in \<open>vr_init_queue\<close>: a store writes it and a show reads it.
\<close>

definition vr_sync_expire_show :: "(int \<Rightarrow> int) \<Rightarrow> vr_data \<Rightarrow> int" where
  "vr_sync_expire_show jiffies_to_msecs vd =
     SHOW_FUNCTION (fifo_expire vd SYNC READ) (Some jiffies_to_msecs)"

definition vr_async_expire_show :: "(int \<Rightarrow> int) \<Rightarrow> vr_data \<Rightarrow> int" where
  "vr_async_expire_show jiffies_to_msecs vd =
     SHOW_FUNCTION (fifo_expire vd ASYNC READ) (Some jiffies_to_msecs)"

definition vr_fifo_batch_show :: "vr_data \<Rightarrow> int" where
  "vr_fifo_batch_show vd = SHOW_FUNCTION (fifo_batch vd) None"

definition vr_rev_penalty_show :: "vr_data \<Rightarrow> int" where
  "vr_rev_penalty_show vd = SHOW_FUNCTION (rev_penalty vd) None"

definition vr_sync_expire_store ::
    "(int \<Rightarrow> int) \<Rightarrow> int \<Rightarrow> nat \<Rightarrow> vr_data \<Rightarrow> vr_data \<times> nat" where
  "vr_sync_expire_store msecs_to_jiffies =
     STORE_FUNCTION
       (\<lambda>x vd. vd\<lparr>fifo_expire := (fifo_expire vd)(SYNC := (fifo_expire vd SYNC)(READ := x))\<rparr>)
       0 INT_MAX (Some msecs_to_jiffies)"

definition vr_async_expire_store ::
    "(int \<Rightarrow> int) \<Rightarrow> int \<Rightarrow> nat \<Rightarrow> vr_data \<Rightarrow> vr_data \<times> nat" where
  "vr_async_expire_store msecs_to_jiffies =
     STORE_FUNCTION
       (\<lambda>x vd. vd\<lparr>fifo_expire := (fifo_expire vd)(ASYNC := (fifo_expire vd ASYNC)(READ := x))\<rparr>)
       0 INT_MAX (Some msecs_to_jiffies)"

definition vr_fifo_batch_store :: "int \<Rightarrow> nat \<Rightarrow> vr_data \<Rightarrow> vr_data \<times> nat" where
  "vr_fifo_batch_store = STORE_FUNCTION (\<lambda>x vd. vd\<lparr>fifo_batch := x\<rparr>) 0 INT_MAX None"

definition vr_rev_penalty_store :: "int \<Rightarrow> nat \<Rightarrow> vr_data \<Rightarrow> vr_data \<times> nat" where
  "vr_rev_penalty_store = STORE_FUNCTION (\<lambda>x vd. vd\<lparr>rev_penalty := x\<rparr>) 0 INT_MAX None"

text \<open>
  The attribute table \<open>vr_attrs\<close>: \<open>DD_ATTR(name)\<close> pairs the name with
  \<open>vr_name_show\<close> and \<open>vr_name_store\<close>.
\<close>

record elv_fs_entry =
  attr_name :: string
  attr_show :: "vr_data \<Rightarrow> int"
  attr_store :: "int \<Rightarrow> nat \<Rightarrow> vr_data \<Rightarrow> vr_data \<times> nat"

definition vr_attrs :: "(int \<Rightarrow> int) \<Rightarrow> (int \<Rightarrow> int) \<Rightarrow> elv_fs_entry list" where
  "vr_attrs msecs_to_jiffies jiffies_to_msecs =
     [\<lparr>attr_name = ''sync_expire'', attr_show = vr_sync_expire_show jiffies_to_msecs,
       attr_store = vr_sync_expire_store msecs_to_jiffies\<rparr>,
      \<lparr>attr_name = ''async_expire'', attr_show = vr_async_expire_show jiffies_to_msecs,
       attr_store = vr_async_expire_store msecs_to_jiffies\<rparr>,
      \<lparr>attr_name = ''fifo_batch'', attr_show = vr_fifo_batch_show,
       attr_store = vr_fifo_batch_store\<rparr>,
      \<lparr>attr_name = ''rev_penalty'', attr_show = vr_rev_penalty_show,
       attr_store = vr_rev_penalty_store\<rparr>]"

text \<open>
  The kernel's elevator sysfs layer (not part of this file) serves a write to the file of
  an attribute by the store function of the table entry with that name, and a read by
  its show function; a name without an entry has no file. \<open>configure\<close> and
  \<open>snapshot_config\<close> are these two lookups.
\<close>

definition configure ::
    "elv_fs_entry list \<Rightarrow> string \<Rightarrow> int \<Rightarrow> nat \<Rightarrow> vr_data \<Rightarrow> (vr_data \<times> nat) option" where
  "configure attrs name parsed count vd =
     (case find (\<lambda>e. attr_name e = name) attrs of
        None \<Rightarrow> None
      | Some e \<Rightarrow> Some (attr_store e parsed count vd))"

definition snapshot_config :: "elv_fs_entry list \<Rightarrow> string \<Rightarrow> vr_data \<Rightarrow> int option" where
  "snapshot_config attrs name vd =
     (case find (\<lambda>e. attr_name e = name) attrs of
        None \<Rightarrow> None
      | Some e \<Rightarrow> Some (attr_show e vd))"

subsection \<open>The selection algorithm\<close>

text \<open>
  The elevator's table names \<open>vr_dispatch_requests\<close> as its dispatch hook; the file
  defines no such function, and none that inserts into or removes from \<open>sort_list\<close>.
  The definitions of this subsection follow the specification's sections 4.1, 4.2 and 4.4
  instead. Times are compared as the file compares them, with \<open>time_before\<close>.
\<close>

text \<open>Modelled from the spec: the first entry of a list with the least key (section 4.1,
  "smallest first"); the file has no sector index lookup.\<close>

fun least_by :: "(nat \<Rightarrow> nat) \<Rightarrow> nat list \<Rightarrow> nat option" where
  "least_by key [] = None"
| "least_by key (x # xs) =
     (case least_by key xs of
        None \<Rightarrow> Some x
      | Some y \<Rightarrow> if key x \<le> key y then Some x else Some y)"

text \<open>Modelled from the spec: the first entry of a list with the greatest key (section 4.1,
  "largest first"); the file has no sector index lookup.\<close>

fun greatest_by :: "(nat \<Rightarrow> nat) \<Rightarrow> nat list \<Rightarrow> nat option" where
  "greatest_by key [] = None"
| "greatest_by key (x # xs) =
     (case greatest_by key xs of
        None \<Rightarrow> Some x
      | Some y \<Rightarrow> if key y \<le> key x then Some x else Some y)"

text \<open>Modelled from the spec: \<open>successor(sector)\<close> of the Sector Index, the nearest
  request with sector \<open>\<ge>\<close> the given one; the lookup function is missing from the file.
  The first argument gives the sector of a request, the second the requests of the index.\<close>

definition successor :: "(nat \<Rightarrow> nat) \<Rightarrow> nat list \<Rightarrow> nat \<Rightarrow> nat option" where
  "successor pos idx sector = least_by pos (filter (\<lambda>r. sector \<le> pos r) idx)"

text \<open>Modelled from the spec: \<open>predecessor(sector)\<close> of the Sector Index, the nearest
  request with sector \<open><\<close> the given one; the lookup function is missing from the file.\<close>

definition predecessor :: "(nat \<Rightarrow> nat) \<Rightarrow> nat list \<Rightarrow> nat \<Rightarrow> nat option" where
  "predecessor pos idx sector = greatest_by pos (filter (\<lambda>r. pos r < sector) idx)"

text \<open>Modelled from the spec: \<open>peek_front(class)\<close> of section 4.2, the oldest entry of the
  class's queue, not removed; the dispatch code that would read the list heads is missing
  from the file.\<close>

definition peek_front :: "vr_data \<Rightarrow> sync_class \<Rightarrow> data_dir \<Rightarrow> nat option" where
  "peek_front vd s d = (case fifo_list vd s d of [] \<Rightarrow> None | x # xs \<Rightarrow> Some x)"

text \<open>Modelled from the spec: \<open>is_expired(entry, now)\<close> of section 4.2,
  \<open>now \<ge> entry.expiration\<close>; the dispatch code that would test it is missing from the
  file. "Not before" is the negation of the file's \<open>time_before\<close>.\<close>

definition is_expired :: "('l::len word) request_queue \<Rightarrow> 'l word \<Rightarrow> nat \<Rightarrow> bool" where
  "is_expired q now r = (\<not> time_before now (rq_fifo_time (rq q r)))"

text \<open>Modelled from the spec: the first entry of a list whose expiration no other entry
  strictly precedes (step 2 of section 4.4, "globally earliest expiration"); the dispatch
  code is missing from the file.\<close>

fun earliest_by :: "(nat \<Rightarrow> 'l::len word) \<Rightarrow> nat list \<Rightarrow> nat option" where
  "earliest_by expiry [] = None"
| "earliest_by expiry (x # xs) =
     (case earliest_by expiry xs of
        None \<Rightarrow> Some x
      | Some y \<Rightarrow> if time_before (expiry y) (expiry x) then Some y else Some x)"

text \<open>Modelled from the spec: step 2 of section 4.4 (forced by deadline); the dispatch
  hook is missing from the file. The fronts of the four classes are taken reads before
  writes and, within a direction, sync before async, so that a tie goes to the earlier
  one of this order.\<close>

definition expired_fronts :: "('l::len word) request_queue \<Rightarrow> 'l word \<Rightarrow> nat list" where
  "expired_fronts q now =
     filter (is_expired q now)
       (concat (map (\<lambda>(s, d). case peek_front (elevator_data q) s d of None \<Rightarrow> [] | Some r \<Rightarrow> [r])
          [(SYNC, READ), (ASYNC, READ), (SYNC, WRITE), (ASYNC, WRITE)]))"

definition forced_choice :: "('l::len word) request_queue \<Rightarrow> 'l word \<Rightarrow> nat option" where
  "forced_choice q now = earliest_by (\<lambda>r. rq_fifo_time (rq q r)) (expired_fronts q now)"

text \<open>Modelled from the spec: the distance rule of step 5 of section 4.4 over the given
  requests; the dispatch hook is missing from the file. The forward candidate costs its
  distance, the backward candidate its distance times the reversal penalty; a penalty of
  0 forbids the reversal while a forward candidate exists; the lower cost wins and a tie
  goes forward.\<close>

definition distance_rule ::
    "(nat \<Rightarrow> nat) \<Rightarrow> int \<Rightarrow> nat \<Rightarrow> nat list \<Rightarrow> (nat \<times> head_direction) option" where
  "distance_rule pos penalty head idx =
     (case (successor pos idx head, predecessor pos idx head) of
        (None, None) \<Rightarrow> None
      | (Some f, None) \<Rightarrow> Some (f, Forward)
      | (None, Some b) \<Rightarrow> Some (b, Backward)
      | (Some f, Some b) \<Rightarrow>
          if penalty = 0 then Some (f, Forward)
          else if int (pos f - head) \<le> int (head - pos b) * penalty then Some (f, Forward)
          else Some (b, Backward))"

text \<open>Modelled from the spec: the write requests of the Sector Index (step 4 of section
  4.4, "at least one write request is outstanding"); the dispatch hook is missing from
  the file.\<close>

definition outstanding_writes :: "'t request_queue \<Rightarrow> nat list" where
  "outstanding_writes q =
     filter (\<lambda>r. rq_data_dir (rq q r) = WRITE) (sort_list (elevator_data q))"

text \<open>Modelled from the spec: steps 3 and 4 of section 4.4; the dispatch hook is missing
  from the file. Step 3 passes control to step 4 when the batched-run counter has reached
  the batch threshold, and step 4 picks a write by the distance rule when the starved
  counter has reached the starvation threshold and a write is outstanding.\<close>

definition batch_cutoff :: "vr_data \<Rightarrow> bool" where
  "batch_cutoff vd = (fifo_batch vd \<le> int (batched vd))"

definition starvation_choice :: "'t request_queue \<Rightarrow> nat option" where
  "starvation_choice q =
     (let vd = elevator_data q in
      if batch_cutoff vd \<and> writes_starved vd \<le> int (starved vd) \<and> outstanding_writes q \<noteq> []
      then map_option fst
             (distance_rule (\<lambda>r. rq_pos (rq q r)) (rev_penalty vd) (last_sector vd)
                (outstanding_writes q))
      else None)"

text \<open>Modelled from the spec: step 5 of section 4.4 over the whole Sector Index; the
  dispatch hook is missing from the file.\<close>

definition distance_choice :: "'t request_queue \<Rightarrow> (nat \<times> head_direction) option" where
  "distance_choice q =
     (let vd = elevator_data q in
      distance_rule (\<lambda>r. rq_pos (rq q r)) (rev_penalty vd) (last_sector vd) (sort_list vd))"

text \<open>Modelled from the spec: step 6 of section 4.4, the chosen request leaves the Sector
  Index and its Deadline Queue and its sector becomes the last dispatched sector; the
  dispatch hook is missing from the file.\<close>

definition remove_request :: "nat \<Rightarrow> 't request_queue \<Rightarrow> 't request_queue" where
  "remove_request r q =
     q\<lparr>elevator_data := (elevator_data q)
        \<lparr>sort_list := removeAll r (sort_list (elevator_data q)),
         fifo_list := list_del r (fifo_list (elevator_data q)),
         last_sector := rq_pos (rq q r)\<rparr>\<rparr>"

text \<open>Modelled from the spec: the counters after a distance-based dispatch (step 5): the
  batched run grows when the direction continues and restarts at 1 with the direction
  flipped otherwise; a write resets the starved counter, a read increments it. The
  dispatch hook is missing from the file.\<close>

definition sweep_update :: "head_direction \<Rightarrow> data_dir \<Rightarrow> vr_data \<Rightarrow> vr_data" where
  "sweep_update dir rw vd =
     vd\<lparr>batched := (if dir = last_dir vd then batched vd + 1 else 1),
        last_dir := dir,
        starved := (if rw = WRITE then 0 else starved vd + 1)\<rparr>"

text \<open>Modelled from the spec: \<open>dispatch_next\<close> of section 4.4, the steps in their
  priority order; the dispatch hook \<open>vr_dispatch_requests\<close> is missing from the file.
  \<open>None\<close> is "idle". A forced dispatch (step 2) changes no counter; the starvation
  override (step 4) resets the starved counter; the recorded direction changes in step 5
  only.\<close>

definition dispatch_next ::
    "'l::len word \<Rightarrow> ('l word) request_queue \<Rightarrow> nat option \<times> ('l word) request_queue" where
  "dispatch_next now q =
     (if sort_list (elevator_data q) = [] then (None, q)
      else
        (case forced_choice q now of
           Some r \<Rightarrow> (Some r, remove_request r q)
         | None \<Rightarrow>
            (case starvation_choice q of
               Some r \<Rightarrow>
                 (Some r,
                  remove_request r (q\<lparr>elevator_data := (elevator_data q)\<lparr>starved := 0\<rparr>\<rparr>))
             | None \<Rightarrow>
                (case distance_choice q of
                   None \<Rightarrow> (None, q)
                 | Some (r, dir) \<Rightarrow>
                     (Some r,
                      remove_request r
                        (q\<lparr>elevator_data :=
                             sweep_update dir (rq_data_dir (rq q r)) (elevator_data q)\<rparr>))))))"

text \<open>
  The membership invariant of the specification's data model: a request is in the Sector
  Index exactly when it is in exactly one Deadline Queue. It is enough to look at the
  requests that are in one of the structures.
\<close>

definition queue_count :: "vr_data \<Rightarrow> nat \<Rightarrow> nat" where
  "queue_count vd r = length (filter (\<lambda>l. r \<in> set l) (fifo_lists vd))"

definition membership_inv :: "vr_data \<Rightarrow> bool" where
  "membership_inv vd =
     (\<forall>r \<in> set (sort_list vd @ concat (fifo_lists vd)).
        (r \<in> set (sort_list vd)) = (queue_count vd r = 1))"

subsection \<open>Runs\<close>

text \<open>A run of submissions: \<open>vr_add_request\<close> for each request, at the given value of
  \<open>jiffies\<close>.\<close>

fun submit_all ::
    "('l::len word \<times> nat) list \<Rightarrow> ('l word) request_queue \<Rightarrow> ('l word) request_queue" where
  "submit_all [] q = q"
| "submit_all ((jiffies, r) # xs) q = submit_all xs (vr_add_request jiffies r q)"

text \<open>A new request queue: the elevator data that \<open>vr_init_queue\<close> returns, beside the
  memory of the requests.\<close>

definition new_queue :: "vr_tunables \<Rightarrow> (nat \<Rightarrow> 't request) \<Rightarrow> 't request_queue option" where
  "new_queue t mem = map_option (\<lambda>vd. \<lparr>elevator_data = vd, rq = mem\<rparr>) (vr_init_queue True t)"

text \<open>
  A forward candidate exists: some request of the Sector Index lies at or beyond the last
  dispatched sector.
\<close>

definition has_forward :: "'t request_queue \<Rightarrow> bool" where
  "has_forward q =
     (filter (\<lambda>r. last_sector (elevator_data q) \<le> rq_pos (rq q r)) (sort_list (elevator_data q)) \<noteq> [])"

text \<open>
  A run of \<open>dispatch_next\<close> calls, one for each given value of \<open>jiffies\<close>, in which no
  call is forced by a deadline or by the starvation override and every call finds a
  forward candidate.
\<close>

fun plain_forward_run :: "'l::len word list \<Rightarrow> ('l word) request_queue \<Rightarrow> bool" where
  "plain_forward_run [] q = True"
| "plain_forward_run (now # ts) q =
     (forced_choice q now = None \<and> starvation_choice q = None \<and> has_forward q \<and>
      plain_forward_run ts (snd (dispatch_next now q)))"

text \<open>The sectors that a run of \<open>dispatch_next\<close> calls dispatches, up to the first idle
  answer.\<close>

fun dispatched_sectors :: "'l::len word list \<Rightarrow> ('l word) request_queue \<Rightarrow> nat list" where
  "dispatched_sectors [] q = []"
| "dispatched_sectors (now # ts) q =
     (case dispatch_next now q of
        (None, q') \<Rightarrow> []
      | (Some r, q') \<Rightarrow> rq_pos (rq q r) # dispatched_sectors ts q')"

text \<open>
  A run of \<open>dispatch_next\<close> calls that all dispatch a read, while a write is in the
  Sector Index, no call is forced by a deadline and the batched-run counter stands at the
  batch threshold or above (so that step 3 passes control to step 4).
\<close>

fun read_run :: "'l::len word list \<Rightarrow> ('l word) request_queue \<Rightarrow> bool" where
  "read_run [] q = True"
| "read_run (now # ts) q =
     (forced_choice q now = None \<and> batch_cutoff (elevator_data q) \<and> outstanding_writes q \<noteq> [] \<and>
      (case dispatch_next now q of
         (None, q') \<Rightarrow> False
       | (Some r, q') \<Rightarrow> rq_data_dir (rq q r) = READ \<and> read_run ts q'))"

text \<open>
  The events in the life of a queue that touch the fifo lists: a submission
  (\<open>vr_add_request\<close>) so many ticks after a start value of \<open>jiffies\<close>, a merge
  (\<open>sio_merged_requests\<close>), the removal of a request from its list (\<open>rq_fifo_clear\<close>)
  and a dispatch (\<open>dispatch_next\<close>). No event writes an expire duration.
\<close>

datatype 't event =
    Add nat nat
  | Merged nat nat
  | Clear nat
  | Dispatch "'t"

fun run_event :: "'l::len word \<Rightarrow> ('l word) event \<Rightarrow> ('l word) request_queue \<Rightarrow> ('l word) request_queue" where
  "run_event j0 (Add d r) q = vr_add_request (j0 + word_of_nat d) r q"
| "run_event j0 (Merged a b) q = sio_merged_requests a b q"
| "run_event j0 (Clear r) q = rq_fifo_clear r q"
| "run_event j0 (Dispatch now) q = snd (dispatch_next now q)"

fun run_events :: "'l::len word \<Rightarrow> ('l word) event list \<Rightarrow> ('l word) request_queue \<Rightarrow> ('l word) request_queue" where
  "run_events j0 [] q = q"
| "run_events j0 (e # es) q = run_events j0 es (run_event j0 e q)"

text \<open>
  A run is valid when its submissions come at non-decreasing tick offsets, all below half
  the range of the \<open>jiffies\<close> counter (the span over which \<open>time_before\<close> orders
  times), each for a request that is on no list (\<open>list_add_tail\<close> takes an unlinked
  node). The second argument is the offset of the latest submission so far.
\<close>

fun valid_events :: "'l::len word \<Rightarrow> nat \<Rightarrow> ('l word) event list \<Rightarrow> ('l word) request_queue \<Rightarrow> bool" where
  "valid_events j0 t [] q = True"
| "valid_events j0 t (Add d r # es) q =
     (t \<le> d \<and> d < 2 ^ (LENGTH('l) - 1) \<and> \<not> on_fifo (elevator_data q) r \<and>
      valid_events j0 d es (run_event j0 (Add d r) q))"
| "valid_events j0 t (e # es) q = valid_events j0 t es (run_event j0 e q)"

text \<open>
  The order kept by the fifo lists. The age of an entry is the distance of its expire time
  from the start time plus the expire duration of the list it is on, read as an unsigned
  number; along every list the ages do not decrease, none exceeds the given bound, and no
  request is linked twice.
\<close>

definition fifo_age :: "'l::len word \<Rightarrow> ('l word) request_queue \<Rightarrow> sync_class \<Rightarrow> data_dir \<Rightarrow> nat \<Rightarrow> nat" where
  "fifo_age j0 q s d r =
     unat (rq_fifo_time (rq q r) - (j0 + word_of_int (fifo_expire (elevator_data q) s d)))"

definition fifo_inv :: "'l::len word \<Rightarrow> nat \<Rightarrow> ('l word) request_queue \<Rightarrow> bool" where
  "fifo_inv j0 t q =
     (distinct (concat (fifo_lists (elevator_data q))) \<and>
      (\<forall>s d. sorted (map (fifo_age j0 q s d) (fifo_list (elevator_data q) s d)) \<and>
             (\<forall>r \<in> set (fifo_list (elevator_data q) s d). fifo_age j0 q s d r \<le> t)))"

text \<open>The answers of a run of \<open>dispatch_next\<close> calls, one for each given value of
  \<open>jiffies\<close>.\<close>

fun dispatch_all :: "'l::len word list \<Rightarrow> ('l word) request_queue \<Rightarrow> nat option list" where
  "dispatch_all [] q = []"
| "dispatch_all (now # ts) q = fst (dispatch_next now q) # dispatch_all ts (snd (dispatch_next now q))"

text \<open>
  The half of the membership invariant that the selection algorithm relies on: the Sector
  Index holds no request twice and holds every request that is on a Deadline Queue.
\<close>

definition queues_indexed :: "vr_data \<Rightarrow> bool" where
  "queues_indexed vd =
     (distinct (sort_list vd) \<and> list_all (\<lambda>r. r \<in> set (sort_list vd)) (concat (fifo_lists vd)))"

subsection \<open>Example queues\<close>

text \<open>
  The example queues start from elevator data whose four list heads are initialised. In
  the first, two read requests of the sync class are on one fifo list, both also in the
  Sector Index. Request 1 expires at 100, every other request at 50. Requests 3 and 4 are
  on no list.
\<close>

definition example_rq :: "nat \<Rightarrow> (32 word) request" where
  "example_rq r =
     \<lparr>rq_pos = 8 * r, rq_data_dir = READ, rq_is_sync = SYNC,
      rq_fifo_time = (if r = 1 then 100 else 50), rq_csd_list = word_of_nat (4096 * r + 64)\<rparr>"

definition example_vr_data :: vr_data where
  "example_vr_data = zeroed_vr_data\<lparr>fifo_head := (\<lambda>s d. HEAD_LINKED)\<rparr>"

definition merge_example :: "(32 word) request_queue" where
  "merge_example =
     \<lparr>elevator_data = example_vr_data
        \<lparr>sort_list := [1, 2],
         fifo_list := (\<lambda>s d. if s = SYNC \<and> d = READ then [1, 2] else [])\<rparr>,
      rq = example_rq\<rparr>"

definition example_tunables :: vr_tunables where
  "example_tunables = \<lparr>sync_expire = 50, async_expire = 400, rev_penalty_tunable = 10\<rparr>"

text \<open>Three reads at sectors 8, 16 and 24 with the head at sector 10 and a reversal
  penalty of 0: the nearest request lies behind the head.\<close>

definition scan_example :: "(32 word) request_queue" where
  "scan_example =
     \<lparr>elevator_data = example_vr_data
        \<lparr>sort_list := [1, 2, 3],
         fifo_list := (\<lambda>s d. if s = SYNC \<and> d = READ then [1, 2, 3] else []),
         last_sector := 10\<rparr>,
      rq = example_rq\<rparr>"

text \<open>
  Two reads (requests 2 and 4, expiring at 50) and one write (request 3, expiring at
  1000); the starved counter has reached the starvation threshold of 1 and the batch
  threshold is 0.
\<close>

definition starve_rq :: "nat \<Rightarrow> (32 word) request" where
  "starve_rq r =
     \<lparr>rq_pos = 8 * r, rq_data_dir = (if r = 3 then WRITE else READ), rq_is_sync = SYNC,
      rq_fifo_time = (if r = 3 then 1000 else 50), rq_csd_list = word_of_nat (4096 * r + 64)\<rparr>"

definition starve_example :: "(32 word) request_queue" where
  "starve_example =
     \<lparr>elevator_data = example_vr_data
        \<lparr>sort_list := [2, 3, 4],
         fifo_list := (\<lambda>s d. if s = SYNC then (if d = READ then [2, 4] else [3]) else []),
         writes_starved := 1, starved := 1\<rparr>,
      rq = starve_rq\<rparr>"

text \<open>
  The batching cutoff not reached: two reads (requests 4 and 5, at sectors 32 and 40)
  ahead of the head at sector 30 and one write (request 3, at sector 24) behind it. The
  starved counter has reached the starvation threshold of 1; the batch threshold is 8 and
  the batched-run counter 0. The reversal penalty is 0.
\<close>

definition batch_example :: "(32 word) request_queue" where
  "batch_example =
     \<lparr>elevator_data = example_vr_data
        \<lparr>sort_list := [3, 4, 5],
         fifo_list := (\<lambda>s d. if s = SYNC then (if d = READ then [4, 5] else [3]) else []),
         fifo_batch := 8, writes_starved := 1, starved := 1, last_sector := 30\<rparr>,
      rq = starve_rq\<rparr>"

text \<open>
  A new queue with the example tunables (sync requests expire after 50 ticks), and the
  queue after request 2 is submitted at time 0, \<open>sync_expire\<close> is set to 10 and request
  3 is submitted at time 5.
\<close>

definition fresh_example :: "(32 word) request_queue" where
  "fresh_example = the (new_queue example_tunables example_rq)"

definition reconfigured_example :: "(32 word) request_queue" where
  "reconfigured_example =
     (let q1 = vr_add_request 0 2 fresh_example;
          vd2 = fst (the (configure (vr_attrs id id) ''sync_expire'' 10 2 (elevator_data q1)))
      in vr_add_request 5 3 (q1\<lparr>elevator_data := vd2\<rparr>))"

section \<open>Properties\<close>

subsection \<open>The membership invariant, unbounded\<close>

lemma membership_inv_iff:
  "membership_inv vd = (\<forall>r. (r \<in> set (sort_list vd)) = (queue_count vd r = 1))"
  unfolding membership_inv_def
proof
  assume a: "\<forall>r\<in>set (sort_list vd @ concat (fifo_lists vd)).
      (r \<in> set (sort_list vd)) = (queue_count vd r = 1)"
  show "\<forall>r. (r \<in> set (sort_list vd)) = (queue_count vd r = 1)"
  proof
    fix r
    show "(r \<in> set (sort_list vd)) = (queue_count vd r = 1)"
    proof (cases "r \<in> set (sort_list vd @ concat (fifo_lists vd))")
      case True
      then show ?thesis using a by blast
    next
      case False
      then have "r \<notin> set (sort_list vd)" and "\<forall>l \<in> set (fifo_lists vd). r \<notin> set l"
        by auto
      then show ?thesis by (simp add: queue_count_def)
    qed
  qed
next
  assume "\<forall>r. (r \<in> set (sort_list vd)) = (queue_count vd r = 1)"
  then show "\<forall>r\<in>set (sort_list vd @ concat (fifo_lists vd)).
      (r \<in> set (sort_list vd)) = (queue_count vd r = 1)"
    by blast
qed

subsection \<open>Construction\<close>

lemma vr_init_queue_Some:
  "vr_init_queue True t =
     Some (zeroed_vr_data
       \<lparr>fifo_head := (\<lambda>s d. if d = READ then HEAD_LINKED else HEAD_ZEROED),
        fifo_expire := (\<lambda>s d. if d = READ then (if s = SYNC then sync_expire t else async_expire t)
                                else 0),
        fifo_batch := fifo_batch_tunable,
        rev_penalty := rev_penalty_tunable t\<rparr>)"
proof -
  have h: "(\<lambda>s d. HEAD_ZEROED)
        (SYNC := ((\<lambda>d. HEAD_ZEROED)(READ := HEAD_LINKED)),
         ASYNC := ((\<lambda>d. HEAD_ZEROED)(READ := HEAD_LINKED))) =
      (\<lambda>s d. if d = READ then HEAD_LINKED else HEAD_ZEROED)"
    by (rule ext, rule ext) (simp add: fun_upd_def, metis sync_class.exhaust)
  have l: "(\<lambda>s d. ([]::nat list))(SYNC := ((\<lambda>d. [])(READ := [])), ASYNC := ((\<lambda>d. [])(READ := []))) =
      (\<lambda>s d. [])"
    by (rule ext, rule ext) (simp add: fun_upd_def)
  have e: "(\<lambda>s d. (0::int))
        (SYNC := ((\<lambda>d. 0)(READ := sync_expire t)),
         ASYNC := ((\<lambda>d. 0)(READ := async_expire t))) =
      (\<lambda>s d. if d = READ then (if s = SYNC then sync_expire t else async_expire t) else 0)"
    by (rule ext, rule ext) (simp add: fun_upd_def, metis sync_class.exhaust)
  show ?thesis
    by (simp add: vr_init_queue_def Let_def INIT_LIST_HEAD_def zeroed_vr_data_def h l e)
qed

lemma vr_init_queue_cases:
  "vr_init_queue alloc_ok t = Some vd \<Longrightarrow> alloc_ok \<and> vr_init_queue True t = Some vd"
  by (cases alloc_ok) (simp_all add: vr_init_queue_def)

lemma vr_init_queue_fifo_list:
  "vr_init_queue alloc_ok t = Some vd \<Longrightarrow> fifo_list vd s d = []"
  by (drule vr_init_queue_cases) (auto simp: vr_init_queue_Some zeroed_vr_data_def)

lemma vr_init_queue_sort_list:
  "vr_init_queue alloc_ok t = Some vd \<Longrightarrow> sort_list vd = []"
  by (drule vr_init_queue_cases) (auto simp: vr_init_queue_Some zeroed_vr_data_def)

lemma vr_init_queue_read_heads:
  "vr_init_queue alloc_ok t = Some vd \<Longrightarrow> list_empty vd s READ"
  by (drule vr_init_queue_cases) (auto simp: vr_init_queue_Some zeroed_vr_data_def list_empty_def)

text \<open>
  C10 fails on the file. The data structure declares \<open>fifo_list[2][2]\<close>, four list heads,
  and \<open>vr_add_request\<close> links into \<open>fifo_list[sync][data_dir]\<close>; \<open>vr_init_queue\<close>
  runs \<open>INIT_LIST_HEAD\<close> twice, on \<open>fifo_list[SYNC]\<close> and \<open>fifo_list[ASYNC]\<close>. Every
  instance it returns has an empty Sector Index, the two counters at 0 and no request on
  any list, but only the two read heads are empty lists: the two write heads are still
  the zeroes of the allocation and \<open>list_empty\<close> is false of them.
\<close>

theorem vr_init_queue_write_heads:
  "vr_init_queue alloc_ok t = Some vd \<Longrightarrow>
     sort_list vd = [] \<and> batched vd = 0 \<and> starved vd = 0 \<and>
     list_empty vd SYNC READ \<and> list_empty vd ASYNC READ \<and>
     fifo_head vd SYNC WRITE = HEAD_ZEROED \<and> fifo_head vd ASYNC WRITE = HEAD_ZEROED \<and>
     \<not> list_empty vd SYNC WRITE \<and> \<not> list_empty vd ASYNC WRITE"
  by (drule vr_init_queue_cases) (auto simp: vr_init_queue_Some zeroed_vr_data_def list_empty_def)

theorem vr_init_queue_write_heads_witness:
  "\<exists>vd. vr_init_queue True example_tunables = Some vd \<and>
     sort_list vd = [] \<and> batched vd = 0 \<and> starved vd = 0 \<and>
     list_empty vd SYNC READ \<and> list_empty vd ASYNC READ \<and>
     \<not> list_empty vd SYNC WRITE \<and> \<not> list_empty vd ASYNC WRITE"
proof -
  obtain vd where h: "vr_init_queue True example_tunables = Some vd"
    by (simp add: vr_init_queue_Some)
  from vr_init_queue_write_heads [OF h] h show ?thesis by blast
qed

subsection \<open>The merge hook\<close>

lemma add_behind_replace:
  "distinct l \<Longrightarrow> new \<notin> set l \<Longrightarrow> new \<noteq> at \<Longrightarrow>
     removeAll at (add_behind new at l) = map (\<lambda>x. if x = at then new else x) l"
proof (induction l)
  case Nil
  then show ?case by simp
next
  case (Cons x xs)
  show ?case
  proof (cases "x = at")
    case True
    with Cons.prems have "at \<notin> set xs" by simp
    then have "map (\<lambda>x. if x = at then new else x) xs = xs"
      by (intro map_idI) auto
    with True Cons.prems \<open>at \<notin> set xs\<close> show ?thesis by simp
  next
    case False
    with Cons show ?thesis by simp
  qed
qed

text \<open>A list node is linked at one place: the four fifo lists share no entry and repeat
  none. This is the well-formedness of the lists.\<close>

lemma distinct_fifo_list:
  "distinct (concat (fifo_lists vd)) \<Longrightarrow> distinct (fifo_list vd s d)"
  by (cases s; cases d) (simp_all add: fifo_lists_def)

lemma on_fifo_iff: "on_fifo vd r = (\<exists>s d. r \<in> set (fifo_list vd s d))"
proof
  assume "on_fifo vd r"
  then show "\<exists>s d. r \<in> set (fifo_list vd s d)"
    by (auto simp: on_fifo_def fifo_lists_def)
next
  assume "\<exists>s d. r \<in> set (fifo_list vd s d)"
  then obtain s d where "r \<in> set (fifo_list vd s d)" by blast
  then show "on_fifo vd r"
    by (cases s; cases d) (simp_all add: on_fifo_def fifo_lists_def)
qed

lemma sio_merged_requests_moved:
  assumes wf: "distinct (concat (fifo_lists (elevator_data q)))"
    and a: "on_fifo (elevator_data q) a" and b: "on_fifo (elevator_data q) b"
    and ne: "a \<noteq> b"
    and before: "time_before (rq_fifo_time (rq q b)) (rq_fifo_time (rq q a))"
  shows "sio_merged_requests a b q =
     q\<lparr>elevator_data := (elevator_data q)
          \<lparr>fifo_list := (\<lambda>s d. map (\<lambda>x. if x = b then a else x)
                                 (removeAll a (fifo_list (elevator_data q) s d)))\<rparr>,
       rq := (rq q)
         (a := (rq q a)\<lparr>rq_fifo_time := rq_fifo_time (rq q b)\<rparr>,
          b := (rq q b)\<lparr>rq_fifo_time := rq_csd_list (rq q b)\<rparr>)\<rparr>"
proof -
  have "removeAll b (add_behind a b (removeAll a (fifo_list (elevator_data q) s d))) =
      map (\<lambda>x. if x = b then a else x) (removeAll a (fifo_list (elevator_data q) s d))" for s d
    using distinct_fifo_list [OF wf, of s d] ne
    by (intro add_behind_replace) (auto simp: distinct_removeAll)
  then show ?thesis
    using a b before ne
    by (simp add: sio_merged_requests_def rq_fifo_clear_def rq_set_fifo_time_def
        list_move_def list_add_def list_del_def)
qed

lemma sio_merged_requests_kept:
  assumes "\<not> (on_fifo (elevator_data q) a \<and> on_fifo (elevator_data q) b \<and>
      time_before (rq_fifo_time (rq q b)) (rq_fifo_time (rq q a)))"
  shows "sio_merged_requests a b q = rq_fifo_clear b q"
  using assms by (auto simp: sio_merged_requests_def)

lemma merge_example_simps:
  "sort_list (elevator_data merge_example) = [1, 2]"
  "fifo_list (elevator_data merge_example) s d = (if s = SYNC \<and> d = READ then [1, 2] else [])"
  "rq merge_example r = example_rq r"
  by (simp_all add: merge_example_def zeroed_vr_data_def example_vr_data_def)

lemma merge_example_on_fifo:
  "on_fifo (elevator_data merge_example) r = (r = 1 \<or> r = 2)"
  by (auto simp: on_fifo_iff merge_example_simps)

lemma merge_example_distinct: "distinct (concat (fifo_lists (elevator_data merge_example)))"
  by (simp add: fifo_lists_def merge_example_simps)

text \<open>
  What the hook does to two different requests \<open>a\<close> (primary) and \<open>b\<close> (secondary)
  that are both on a fifo list: if \<open>b\<close>'s expire time is before \<open>a\<close>'s
  (\<open>time_before\<close>), \<open>a\<close> afterwards holds \<open>b\<close>'s expire time and stands where
  \<open>b\<close> stood, every list being the old one with \<open>a\<close> taken out and \<open>b\<close> replaced
  by \<open>a\<close>; otherwise \<open>a\<close> keeps its expire time and its place, every list only losing
  \<open>b\<close>. In both cases \<open>b\<close> is on no fifo list afterwards and \<open>sort_list\<close> is what
  it was.
\<close>

lemma sio_merged_requests_transfer:
  assumes "distinct (concat (fifo_lists (elevator_data q)))"
    and "on_fifo (elevator_data q) a" and "on_fifo (elevator_data q) b" and "a \<noteq> b"
  shows "let q' = sio_merged_requests a b q in
      (if time_before (rq_fifo_time (rq q b)) (rq_fifo_time (rq q a)) then
         rq_fifo_time (rq q' a) = rq_fifo_time (rq q b) \<and>
         (\<forall>s d. fifo_list (elevator_data q') s d =
            map (\<lambda>x. if x = b then a else x) (removeAll a (fifo_list (elevator_data q) s d)))
       else
         rq_fifo_time (rq q' a) = rq_fifo_time (rq q a) \<and>
         (\<forall>s d. fifo_list (elevator_data q') s d = removeAll b (fifo_list (elevator_data q) s d))) \<and>
      \<not> on_fifo (elevator_data q') b \<and>
      sort_list (elevator_data q') = sort_list (elevator_data q)"
proof (cases "time_before (rq_fifo_time (rq q b)) (rq_fifo_time (rq q a))")
  case True
  from sio_merged_requests_moved [OF assms True] assms(4) True show ?thesis
    by (auto simp: Let_def on_fifo_iff)
next
  case False
  then have "sio_merged_requests a b q = rq_fifo_clear b q"
    by (intro sio_merged_requests_kept) simp
  with False assms(4) show ?thesis
    by (auto simp: Let_def on_fifo_iff rq_fifo_clear_def list_del_def)
qed

lemma merge_example_merged:
  "sio_merged_requests 1 2 merge_example =
     merge_example\<lparr>elevator_data := (elevator_data merge_example)
          \<lparr>fifo_list := (\<lambda>s d. if s = SYNC \<and> d = READ then [1] else [])\<rparr>,
       rq := (rq merge_example)
         (1 := (rq merge_example 1)\<lparr>rq_fifo_time := 50\<rparr>,
          2 := (rq merge_example 2)\<lparr>rq_fifo_time := rq_csd_list (rq merge_example 2)\<rparr>)\<rparr>"
proof -
  have tb: "time_before (rq_fifo_time (rq merge_example 2)) (rq_fifo_time (rq merge_example 1))"
    by (simp add: merge_example_simps example_rq_def time_before_def)
  have ne: "(1::nat) \<noteq> 2" by simp
  have on: "on_fifo (elevator_data merge_example) 1" "on_fifo (elevator_data merge_example) 2"
    by (simp_all add: merge_example_on_fifo)
  have l: "(\<lambda>s d. map (\<lambda>x. if x = 2 then 1 else x)
        (removeAll 1 (fifo_list (elevator_data merge_example) s d))) =
      (\<lambda>s d. if s = SYNC \<and> d = READ then [1::nat] else [])"
    by (intro ext) (simp add: merge_example_simps)
  have t: "rq_fifo_time (rq merge_example 2) = 50"
    by (simp add: merge_example_simps example_rq_def)
  show ?thesis
    unfolding sio_merged_requests_moved [OF merge_example_distinct on ne tb] l t ..
qed

text \<open>
  C3 fails on the file. The comment of \<open>sio_merged_requests\<close> says "Delete next request",
  and the function only takes \<open>next\<close> off its fifo list (\<open>rq_fifo_clear\<close>): no
  statement removes it from \<open>sort_list\<close>. Requests 1 and 2 are in the Sector Index and
  on one Deadline Queue, request 2 expiring before request 1, and the membership invariant
  holds. After merging 2 into 1, request 1 holds the expiration of request 2 and stands
  alone on the queue, and request 2 is on no Deadline Queue but still in the Sector Index:
  the membership invariant is broken.
\<close>

theorem sio_merged_requests_keeps_sector_index:
  "membership_inv (elevator_data merge_example) \<and>
   time_before (rq_fifo_time (rq merge_example 2)) (rq_fifo_time (rq merge_example 1)) \<and>
   rq_fifo_time (rq (sio_merged_requests 1 2 merge_example) 1) = 50 \<and>
   fifo_list (elevator_data (sio_merged_requests 1 2 merge_example)) SYNC READ = [1] \<and>
   \<not> on_fifo (elevator_data (sio_merged_requests 1 2 merge_example)) 2 \<and>
   2 \<in> set (sort_list (elevator_data (sio_merged_requests 1 2 merge_example))) \<and>
   \<not> membership_inv (elevator_data (sio_merged_requests 1 2 merge_example))"
proof -
  have inv: "membership_inv (elevator_data merge_example)"
    by (simp add: membership_inv_def queue_count_def fifo_lists_def merge_example_simps)
  have tb: "time_before (rq_fifo_time (rq merge_example 2)) (rq_fifo_time (rq merge_example 1))"
    by (simp add: merge_example_simps example_rq_def time_before_def)
  have t: "rq_fifo_time (rq (sio_merged_requests 1 2 merge_example) 1) = 50"
    unfolding merge_example_merged by simp
  have f: "fifo_list (elevator_data (sio_merged_requests 1 2 merge_example)) s d =
      (if s = SYNC \<and> d = READ then [1] else [])" for s d
    unfolding merge_example_merged by simp
  have off: "\<not> on_fifo (elevator_data (sio_merged_requests 1 2 merge_example)) 2"
    unfolding on_fifo_iff f by simp
  have s: "sort_list (elevator_data (sio_merged_requests 1 2 merge_example)) = [1, 2]"
    unfolding merge_example_merged by (simp add: merge_example_simps)
  have qc: "queue_count (elevator_data (sio_merged_requests 1 2 merge_example)) 2 = 0"
    unfolding queue_count_def fifo_lists_def f by simp
  have "\<not> membership_inv (elevator_data (sio_merged_requests 1 2 merge_example))"
    unfolding membership_inv_iff using qc s
    by (metis list.set_intros(1) list.set_intros(2) zero_neq_one)
  with inv tb t f off s show ?thesis by simp
qed

theorem sio_merged_requests_keeps_sector_index_witness:
  "\<exists>r. r \<in> set (sort_list (elevator_data (sio_merged_requests 1 2 merge_example))) \<and>
     \<not> on_fifo (elevator_data (sio_merged_requests 1 2 merge_example)) r"
  using sio_merged_requests_keeps_sector_index by blast




subsection \<open>The sysfs attributes\<close>

lemma long_to_int_range: "- 2147483648 \<le> long_to_int v \<and> long_to_int v \<le> INT_MAX"
proof -
  have "sint (word_of_int v :: 32 word) < 2 ^ (LENGTH(32) - 1)" by (rule sint_lt)
  moreover have "- (2 ^ (LENGTH(32) - 1)) \<le> sint (word_of_int v :: 32 word)" by (rule sint_ge)
  ultimately show ?thesis by (simp add: long_to_int_def INT_MAX_def)
qed

lemma long_to_int_id: "- 2147483648 \<le> v \<Longrightarrow> v \<le> INT_MAX \<Longrightarrow> long_to_int v = v"
  unfolding long_to_int_def INT_MAX_def
  by (simp add: signed_take_bit_int_eq_self_iff sint_sbintrunc')

lemma STORE_FUNCTION_clamped:
  "STORE_FUNCTION assign 0 INT_MAX conv v c vd =
     (assign (case conv of Some f \<Rightarrow> f (max 0 (long_to_int v)) | None \<Rightarrow> max 0 (long_to_int v)) vd, c)"
  using long_to_int_range [of v]
  by (auto simp: STORE_FUNCTION_def vr_var_store_def Let_def max_def split: option.splits)

lemma vr_attrs_names:
  "map attr_name (vr_attrs m2j j2m) = [''sync_expire'', ''async_expire'', ''fifo_batch'', ''rev_penalty'']"
  by (simp add: vr_attrs_def)

lemma STORE_FUNCTION_in_range:
  "- 2147483648 \<le> v \<Longrightarrow> v \<le> INT_MAX \<Longrightarrow>
     STORE_FUNCTION assign 0 INT_MAX conv v c vd =
       (assign (case conv of Some f \<Rightarrow> f (max 0 v) | None \<Rightarrow> max 0 v) vd, c)"
  using long_to_int_id [of v] by (cases conv) (simp_all add: STORE_FUNCTION_clamped)

text \<open>
  C8, as the file has it. The attribute table has four options, \<open>sync_expire\<close>,
  \<open>async_expire\<close>, \<open>fifo_batch\<close> and \<open>rev_penalty\<close>. Writing a value in the range
  of \<open>int\<close> to one of them is accepted (the store function returns the byte count, never
  an error) and stores the value raised to at least 0, which lies in \<open>0 .. INT_MAX\<close>;
  the two expire options store it converted to jiffies, in the one \<open>int\<close> that
  \<open>fifo_expire[SYNC]\<close> or \<open>fifo_expire[ASYNC]\<close> names. Reading the option afterwards
  returns the stored value, the expire options converted back to milliseconds.
\<close>

theorem vr_attrs_store_show:
  assumes "- 2147483648 \<le> v" and "v \<le> INT_MAX"
  shows "map attr_name (vr_attrs m2j j2m) =
     [''sync_expire'', ''async_expire'', ''fifo_batch'', ''rev_penalty''] \<and>
   configure (vr_attrs m2j j2m) ''sync_expire'' v c vd =
     Some (vd\<lparr>fifo_expire := (fifo_expire vd)
              (SYNC := (fifo_expire vd SYNC)(READ := m2j (max 0 v)))\<rparr>, c) \<and>
   configure (vr_attrs m2j j2m) ''async_expire'' v c vd =
     Some (vd\<lparr>fifo_expire := (fifo_expire vd)
              (ASYNC := (fifo_expire vd ASYNC)(READ := m2j (max 0 v)))\<rparr>, c) \<and>
   configure (vr_attrs m2j j2m) ''fifo_batch'' v c vd = Some (vd\<lparr>fifo_batch := max 0 v\<rparr>, c) \<and>
   configure (vr_attrs m2j j2m) ''rev_penalty'' v c vd = Some (vd\<lparr>rev_penalty := max 0 v\<rparr>, c) \<and>
   snapshot_config (vr_attrs m2j j2m) ''sync_expire''
     (fst (the (configure (vr_attrs m2j j2m) ''sync_expire'' v c vd))) = Some (j2m (m2j (max 0 v))) \<and>
   snapshot_config (vr_attrs m2j j2m) ''async_expire''
     (fst (the (configure (vr_attrs m2j j2m) ''async_expire'' v c vd))) = Some (j2m (m2j (max 0 v))) \<and>
   snapshot_config (vr_attrs m2j j2m) ''fifo_batch''
     (fst (the (configure (vr_attrs m2j j2m) ''fifo_batch'' v c vd))) = Some (max 0 v) \<and>
   snapshot_config (vr_attrs m2j j2m) ''rev_penalty''
     (fst (the (configure (vr_attrs m2j j2m) ''rev_penalty'' v c vd))) = Some (max 0 v) \<and>
   0 \<le> max 0 v \<and> max 0 v \<le> INT_MAX"
proof -
  note sf = STORE_FUNCTION_in_range [OF assms]
  have s1: "configure (vr_attrs m2j j2m) ''sync_expire'' v c vd =
     Some (vd\<lparr>fifo_expire := (fifo_expire vd)
              (SYNC := (fifo_expire vd SYNC)(READ := m2j (max 0 v)))\<rparr>, c)"
    by (simp add: configure_def vr_attrs_def vr_sync_expire_store_def sf)
  have s2: "configure (vr_attrs m2j j2m) ''async_expire'' v c vd =
     Some (vd\<lparr>fifo_expire := (fifo_expire vd)
              (ASYNC := (fifo_expire vd ASYNC)(READ := m2j (max 0 v)))\<rparr>, c)"
    by (simp add: configure_def vr_attrs_def vr_async_expire_store_def sf)
  have s3: "configure (vr_attrs m2j j2m) ''fifo_batch'' v c vd = Some (vd\<lparr>fifo_batch := max 0 v\<rparr>, c)"
    by (simp add: configure_def vr_attrs_def vr_fifo_batch_store_def sf)
  have s4: "configure (vr_attrs m2j j2m) ''rev_penalty'' v c vd = Some (vd\<lparr>rev_penalty := max 0 v\<rparr>, c)"
    by (simp add: configure_def vr_attrs_def vr_rev_penalty_store_def sf)
  have g1: "snapshot_config (vr_attrs m2j j2m) ''sync_expire'' vd' = Some (j2m (fifo_expire vd' SYNC READ))"
    for vd'
    by (simp add: snapshot_config_def vr_attrs_def vr_sync_expire_show_def SHOW_FUNCTION_def
        vr_var_show_def)
  have g2: "snapshot_config (vr_attrs m2j j2m) ''async_expire'' vd' = Some (j2m (fifo_expire vd' ASYNC READ))"
    for vd'
    by (simp add: snapshot_config_def vr_attrs_def vr_async_expire_show_def SHOW_FUNCTION_def
        vr_var_show_def)
  have g3: "snapshot_config (vr_attrs m2j j2m) ''fifo_batch'' vd' = Some (fifo_batch vd')" for vd'
    by (simp add: snapshot_config_def vr_attrs_def vr_fifo_batch_show_def SHOW_FUNCTION_def
        vr_var_show_def)
  have g4: "snapshot_config (vr_attrs m2j j2m) ''rev_penalty'' vd' = Some (rev_penalty vd')" for vd'
    by (simp add: snapshot_config_def vr_attrs_def vr_rev_penalty_show_def SHOW_FUNCTION_def
        vr_var_show_def)
  have r: "max 0 v \<le> INT_MAX"
    using assms(2) by (simp add: INT_MAX_def)
  show ?thesis
    unfolding s1 s2 s3 s4 g1 g2 g3 g4 using r by (simp add: vr_attrs_names)
qed

theorem vr_attrs_store_show_witness:
  "configure (vr_attrs (\<lambda>m. (m + 9) div 10) (\<lambda>j. j * 10)) ''sync_expire'' 125 4 zeroed_vr_data =
     Some (zeroed_vr_data\<lparr>fifo_expire := (fifo_expire zeroed_vr_data)
             (SYNC := (fifo_expire zeroed_vr_data SYNC)(READ := 13))\<rparr>, 4) \<and>
   snapshot_config (vr_attrs (\<lambda>m. (m + 9) div 10) (\<lambda>j. j * 10)) ''sync_expire''
     (fst (the (configure (vr_attrs (\<lambda>m. (m + 9) div 10) (\<lambda>j. j * 10)) ''sync_expire'' 125 4
        zeroed_vr_data))) = Some 130 \<and>
   configure (vr_attrs (\<lambda>m. (m + 9) div 10) (\<lambda>j. j * 10)) ''fifo_batch'' (- 3) 2 zeroed_vr_data =
     Some (zeroed_vr_data\<lparr>fifo_batch := 0\<rparr>, 2) \<and>
   configure (vr_attrs (\<lambda>m. (m + 9) div 10) (\<lambda>j. j * 10)) ''rev_penalty'' 2147483647 2 zeroed_vr_data =
     Some (zeroed_vr_data\<lparr>rev_penalty := 2147483647\<rparr>, 2)"
proof -
  have a: "- 2147483648 \<le> (125::int)" "(125::int) \<le> INT_MAX"
    and b: "- 2147483648 \<le> (- 3::int)" "(- 3::int) \<le> INT_MAX"
    and c: "- 2147483648 \<le> (2147483647::int)" "(2147483647::int) \<le> INT_MAX"
    by (simp_all add: INT_MAX_def)
  from vr_attrs_store_show [OF a, of "\<lambda>m. (m + 9) div 10" "\<lambda>j. j * 10" 4 zeroed_vr_data]
  have 1: "configure (vr_attrs (\<lambda>m. (m + 9) div 10) (\<lambda>j. j * 10)) ''sync_expire'' 125 4 zeroed_vr_data =
     Some (zeroed_vr_data\<lparr>fifo_expire := (fifo_expire zeroed_vr_data)
             (SYNC := (fifo_expire zeroed_vr_data SYNC)(READ := 13))\<rparr>, 4)"
    by simp
  from vr_attrs_store_show [OF a, of "\<lambda>m. (m + 9) div 10" "\<lambda>j. j * 10" 4 zeroed_vr_data]
  have 2: "snapshot_config (vr_attrs (\<lambda>m. (m + 9) div 10) (\<lambda>j. j * 10)) ''sync_expire''
     (fst (the (configure (vr_attrs (\<lambda>m. (m + 9) div 10) (\<lambda>j. j * 10)) ''sync_expire'' 125 4
        zeroed_vr_data))) = Some 130"
    by (elim conjE) simp
  from vr_attrs_store_show [OF b, of "\<lambda>m. (m + 9) div 10" "\<lambda>j. j * 10" 2 zeroed_vr_data]
  have 3: "configure (vr_attrs (\<lambda>m. (m + 9) div 10) (\<lambda>j. j * 10)) ''fifo_batch'' (- 3) 2 zeroed_vr_data =
     Some (zeroed_vr_data\<lparr>fifo_batch := 0\<rparr>, 2)"
    by simp
  from vr_attrs_store_show [OF c, of "\<lambda>m. (m + 9) div 10" "\<lambda>j. j * 10" 2 zeroed_vr_data]
  have 4: "configure (vr_attrs (\<lambda>m. (m + 9) div 10) (\<lambda>j. j * 10)) ''rev_penalty'' 2147483647 2 zeroed_vr_data =
     Some (zeroed_vr_data\<lparr>rev_penalty := 2147483647\<rparr>, 2)"
    by simp
  from 1 2 3 4 show ?thesis by blast
qed

text \<open>
  C8 as stated fails in two ways. The table has no entry \<open>writes_starved\<close> and no
  per-direction expire option, so neither can be written or read. And a value above
  \<open>INT_MAX\<close> is not clamped to \<open>INT_MAX\<close>: \<open>vr_var_store\<close> assigns the parsed
  \<open>long\<close> to an \<open>int\<close> before the macro compares it with \<open>MAX\<close>, so that
  2147483648 arrives as the least \<open>int\<close> and is stored as 0, and 4294967301 is stored
  as 5.
\<close>

theorem configure_unknown_option_and_wrap:
  "configure (vr_attrs id id) ''writes_starved'' 5 1 zeroed_vr_data = None \<and>
   snapshot_config (vr_attrs id id) ''writes_starved'' zeroed_vr_data = None \<and>
   configure (vr_attrs id id) ''sync_read_expire_ms'' 5 1 zeroed_vr_data = None \<and>
   configure (vr_attrs id id) ''rev_penalty'' 2147483648 1 (zeroed_vr_data\<lparr>rev_penalty := 7\<rparr>) =
     Some (zeroed_vr_data\<lparr>rev_penalty := 0\<rparr>, 1) \<and>
   configure (vr_attrs id id) ''fifo_batch'' 4294967301 1 zeroed_vr_data =
     Some (zeroed_vr_data\<lparr>fifo_batch := 5\<rparr>, 1)"
proof -
  have a: "long_to_int 2147483648 = - 2147483648" and b: "long_to_int 4294967301 = 5"
    by (simp_all add: long_to_int_def)
  show ?thesis
    by (simp add: configure_def snapshot_config_def vr_attrs_def vr_rev_penalty_store_def
        vr_fifo_batch_store_def STORE_FUNCTION_clamped a b)
qed

subsection \<open>Submission and teardown\<close>

lemma vr_add_request_sort_list:
  "sort_list (elevator_data (vr_add_request j r q)) = sort_list (elevator_data q)"
  by (simp add: vr_add_request_def Let_def rq_set_fifo_time_def)

lemma vr_add_request_fifo_list:
  "fifo_list (elevator_data (vr_add_request j r q)) s d =
     (if s = rq_is_sync (rq q r) \<and> d = rq_data_dir (rq q r)
      then fifo_list (elevator_data q) s d @ [r] else fifo_list (elevator_data q) s d)"
  by (simp add: vr_add_request_def Let_def rq_set_fifo_time_def list_add_tail_def)

lemma vr_add_request_on_fifo:
  "on_fifo (elevator_data (vr_add_request j r q)) x = (x = r \<or> on_fifo (elevator_data q) x)"
proof
  assume "on_fifo (elevator_data (vr_add_request j r q)) x"
  then obtain s d where "x \<in> set (fifo_list (elevator_data (vr_add_request j r q)) s d)"
    by (auto simp: on_fifo_iff)
  then have "x = r \<or> x \<in> set (fifo_list (elevator_data q) s d)"
    by (simp add: vr_add_request_fifo_list split: if_splits)
  then show "x = r \<or> on_fifo (elevator_data q) x"
    by (auto simp: on_fifo_iff)
next
  assume "x = r \<or> on_fifo (elevator_data q) x"
  then show "on_fifo (elevator_data (vr_add_request j r q)) x"
  proof
    assume "x = r"
    then have "x \<in> set (fifo_list (elevator_data (vr_add_request j r q))
        (rq_is_sync (rq q r)) (rq_data_dir (rq q r)))"
      by (simp add: vr_add_request_fifo_list)
    then show ?thesis unfolding on_fifo_iff by blast
  next
    assume "on_fifo (elevator_data q) x"
    then obtain s d where "x \<in> set (fifo_list (elevator_data q) s d)"
      by (auto simp: on_fifo_iff)
    then have "x \<in> set (fifo_list (elevator_data (vr_add_request j r q)) s d)"
      by (auto simp: vr_add_request_fifo_list)
    then show ?thesis unfolding on_fifo_iff by blast
  qed
qed

lemma submit_all_sort_list:
  "sort_list (elevator_data (submit_all xs q)) = sort_list (elevator_data q)"
  by (induction xs q rule: submit_all.induct) (simp_all add: vr_add_request_sort_list)

lemma submit_all_on_fifo:
  "on_fifo (elevator_data (submit_all xs q)) x = (x \<in> snd ` set xs \<or> on_fifo (elevator_data q) x)"
  by (induction xs q rule: submit_all.induct) (auto simp: vr_add_request_on_fifo)

lemma dispatch_next_idle:
  "sort_list (elevator_data q) = [] \<Longrightarrow> dispatch_next now q = (None, q)"
  by (simp add: dispatch_next_def)

lemma new_queue_sort_list: "new_queue t mem = Some q \<Longrightarrow> sort_list (elevator_data q) = []"
  by (auto simp: new_queue_def vr_init_queue_sort_list)

text \<open>
  C1 fails on the file. \<open>vr_add_request\<close> links a request into its fifo list and never
  into \<open>sort_list\<close>, although its comment announces "add rq to rbtree and fifo". After
  any run of submissions to a new queue the Sector Index is still empty
  (\<open>vr_queue_empty\<close> holds), so the first \<open>dispatch_next\<close> already returns idle, while
  every submitted request sits on a Deadline Queue.
\<close>

theorem submitted_requests_never_dispatched:
  assumes "new_queue t mem = Some q0" and "(jiffies, r) \<in> set xs"
  shows "dispatch_next now (submit_all xs q0) = (None, submit_all xs q0) \<and>
    on_fifo (elevator_data (submit_all xs q0)) r \<and>
    vr_queue_empty (elevator_data (submit_all xs q0))"
  using assms new_queue_sort_list [OF assms(1)]
  by (force simp: dispatch_next_idle submit_all_sort_list submit_all_on_fifo vr_queue_empty_def)

theorem submitted_requests_never_dispatched_witness:
  "\<exists>q0. new_queue example_tunables example_rq = Some q0 \<and>
     dispatch_next 7 (submit_all [(0, 1), (3, 2)] q0) = (None, submit_all [(0, 1), (3, 2)] q0) \<and>
     on_fifo (elevator_data (submit_all [(0, 1), (3, 2)] q0)) 2"
proof -
  obtain q0 where h: "new_queue example_tunables example_rq = Some q0"
    by (simp add: new_queue_def vr_init_queue_Some)
  have "((3::32 word), (2::nat)) \<in> set [(0, 1), (3, 2)]" by simp
  from submitted_requests_never_dispatched [OF h this, of 7] h show ?thesis by blast
qed

text \<open>
  C2 fails on the file, by the same missing insertion. A new queue satisfies the
  membership invariant; after one \<open>vr_add_request\<close> the request is on exactly one
  Deadline Queue and not in the Sector Index.
\<close>

theorem vr_add_request_breaks_membership:
  "\<exists>q0. new_queue example_tunables example_rq = Some q0 \<and>
     membership_inv (elevator_data q0) \<and>
     fifo_list (elevator_data (vr_add_request 0 2 q0)) SYNC READ = [2] \<and>
     queue_count (elevator_data (vr_add_request 0 2 q0)) 2 = 1 \<and>
     2 \<notin> set (sort_list (elevator_data (vr_add_request 0 2 q0))) \<and>
     \<not> membership_inv (elevator_data (vr_add_request 0 2 q0))"
proof -
  obtain q0 where h: "new_queue example_tunables example_rq = Some q0"
    by (simp add: new_queue_def vr_init_queue_Some)
  then have vd: "vr_init_queue True example_tunables = Some (elevator_data q0)"
    and mem: "rq q0 = example_rq"
    by (auto simp: new_queue_def)
  have empty: "fifo_list (elevator_data q0) s d = []" for s d
    using vd by (rule vr_init_queue_fifo_list)
  have sl: "sort_list (elevator_data q0) = []"
    using h by (rule new_queue_sort_list)
  have inv: "membership_inv (elevator_data q0)"
    by (simp add: membership_inv_def sl fifo_lists_def empty)
  have f: "fifo_list (elevator_data (vr_add_request 0 2 q0)) s d =
      (if s = SYNC \<and> d = READ then [2] else [])" for s d
    by (simp add: vr_add_request_fifo_list mem example_rq_def empty)
  have qc: "queue_count (elevator_data (vr_add_request 0 2 q0)) 2 = 1"
    by (simp add: queue_count_def fifo_lists_def f)
  have s: "sort_list (elevator_data (vr_add_request 0 2 q0)) = []"
    by (simp add: vr_add_request_sort_list sl)
  have "\<not> membership_inv (elevator_data (vr_add_request 0 2 q0))"
    unfolding membership_inv_iff using qc s
    by (metis empty_iff list.set(1))
  with h inv f qc s show ?thesis by simp
qed

theorem vr_add_request_breaks_membership_witness:
  "\<not> (\<forall>q0. new_queue example_tunables example_rq = Some q0 \<longrightarrow>
        membership_inv (elevator_data (vr_add_request 0 2 q0)))"
  using vr_add_request_breaks_membership by blast

text \<open>
  C9 fails on the file, by the same missing insertion. \<open>vr_exit_queue\<close> tests
  \<open>sort_list\<close>, which no submission fills. A new queue has an empty list
  \<open>fifo_list[SYNC][READ]\<close>; after \<open>vr_add_request\<close> for the sync read 2 the request
  is outstanding on that list, and \<open>vr_exit_queue\<close> passes its \<open>BUG_ON\<close> and frees
  the elevator's data all the same.
\<close>

theorem vr_exit_queue_frees_queued_request:
  "\<exists>q0. new_queue example_tunables example_rq = Some q0 \<and>
     list_empty (elevator_data q0) SYNC READ \<and>
     fifo_list (elevator_data (vr_add_request 0 2 q0)) SYNC READ = [2] \<and>
     on_fifo (elevator_data (vr_add_request 0 2 q0)) 2 \<and>
     sort_list (elevator_data (vr_add_request 0 2 q0)) = [] \<and>
     vr_exit_queue (elevator_data (vr_add_request 0 2 q0)) = Freed"
proof -
  obtain q0 where h: "new_queue example_tunables example_rq = Some q0"
    by (simp add: new_queue_def vr_init_queue_Some)
  then have vd: "vr_init_queue True example_tunables = Some (elevator_data q0)"
    and mem: "rq q0 = example_rq"
    by (auto simp: new_queue_def)
  have empty: "fifo_list (elevator_data q0) s d = []" for s d
    using vd by (rule vr_init_queue_fifo_list)
  have le: "list_empty (elevator_data q0) SYNC READ"
    using vd by (rule vr_init_queue_read_heads)
  have f: "fifo_list (elevator_data (vr_add_request 0 2 q0)) SYNC READ = [2]"
    by (simp add: vr_add_request_fifo_list mem example_rq_def empty)
  have on: "on_fifo (elevator_data (vr_add_request 0 2 q0)) 2"
    by (simp add: vr_add_request_on_fifo)
  have s: "sort_list (elevator_data (vr_add_request 0 2 q0)) = []"
    using new_queue_sort_list [OF h] by (simp add: vr_add_request_sort_list)
  have "vr_exit_queue (elevator_data (vr_add_request 0 2 q0)) = Freed"
    by (simp add: vr_exit_queue_def s)
  with h le f on s show ?thesis by blast
qed

text \<open>
  What \<open>vr_exit_queue\<close> tests: it frees the data exactly when \<open>sort_list\<close> is empty,
  and stops in \<open>BUG\<close> with the data as it was when \<open>sort_list\<close> holds a request.
\<close>

lemma vr_exit_queue_contract:
  "(vr_exit_queue vd = Freed) = (sort_list vd = []) \<and>
   (r \<in> set (sort_list vd) \<longrightarrow> vr_exit_queue vd = BUG vd)"
  by (auto simp: vr_exit_queue_def)

subsection \<open>The selection algorithm\<close>

lemma least_by_Some:
  "xs \<noteq> [] \<Longrightarrow> \<exists>x. least_by key xs = Some x \<and> x \<in> set xs \<and> (\<forall>y \<in> set xs. key x \<le> key y)"
proof (induction xs)
  case Nil
  then show ?case by simp
next
  case (Cons a xs)
  show ?case
  proof (cases "xs = []")
    case True
    then show ?thesis by simp
  next
    case False
    with Cons.IH obtain x where "least_by key xs = Some x" "x \<in> set xs"
      "\<forall>y \<in> set xs. key x \<le> key y" by blast
    then show ?thesis by (auto intro: order_trans)
  qed
qed

lemma greatest_by_Some:
  "xs \<noteq> [] \<Longrightarrow> \<exists>x. greatest_by key xs = Some x \<and> x \<in> set xs \<and> (\<forall>y \<in> set xs. key y \<le> key x)"
proof (induction xs)
  case Nil
  then show ?case by simp
next
  case (Cons a xs)
  show ?case
  proof (cases "xs = []")
    case True
    then show ?thesis by simp
  next
    case False
    with Cons.IH obtain x where "greatest_by key xs = Some x" "x \<in> set xs"
      "\<forall>y \<in> set xs. key y \<le> key x" by blast
    then show ?thesis by (auto intro: order_trans)
  qed
qed

lemma successor_Some:
  assumes "filter (\<lambda>r. h \<le> pos r) idx \<noteq> []"
  shows "\<exists>f. successor pos idx h = Some f \<and> f \<in> set idx \<and> h \<le> pos f \<and>
      (\<forall>y \<in> set idx. h \<le> pos y \<longrightarrow> pos f \<le> pos y)"
  using least_by_Some [OF assms, of pos] by (auto simp: successor_def)

lemma predecessor_Some:
  assumes "filter (\<lambda>r. pos r < h) idx \<noteq> []"
  shows "\<exists>b. predecessor pos idx h = Some b \<and> b \<in> set idx \<and> pos b < h \<and>
      (\<forall>y \<in> set idx. pos y < h \<longrightarrow> pos y \<le> pos b)"
  using greatest_by_Some [OF assms, of pos] by (auto simp: predecessor_def)

lemma distance_rule_scan:
  assumes "filter (\<lambda>r. h \<le> pos r) idx \<noteq> []"
  shows "\<exists>f. distance_rule pos 0 h idx = Some (f, Forward) \<and> f \<in> set idx \<and> h \<le> pos f \<and>
      (\<forall>y \<in> set idx. h \<le> pos y \<longrightarrow> pos f \<le> pos y)"
proof -
  from successor_Some [OF assms] obtain f where f: "successor pos idx h = Some f" "f \<in> set idx"
    "h \<le> pos f" "\<forall>y \<in> set idx. h \<le> pos y \<longrightarrow> pos f \<le> pos y" by blast
  then have "distance_rule pos 0 h idx = Some (f, Forward)"
    by (simp add: distance_rule_def split: option.splits)
  with f show ?thesis by blast
qed

lemma dispatch_next_rq: "rq (snd (dispatch_next now q)) = rq q"
  by (simp add: dispatch_next_def remove_request_def split: option.splits prod.splits)

lemma dispatch_next_rev_penalty:
  "rev_penalty (elevator_data (snd (dispatch_next now q))) = rev_penalty (elevator_data q)"
  by (simp add: dispatch_next_def remove_request_def sweep_update_def split: option.splits prod.splits)

lemma dispatch_next_scan_step:
  assumes pen: "rev_penalty (elevator_data q) = 0"
    and nf: "forced_choice q now = None" and ns: "starvation_choice q = None"
    and fw: "has_forward q"
  shows "\<exists>r. fst (dispatch_next now q) = Some r \<and> r \<in> set (sort_list (elevator_data q)) \<and>
      last_sector (elevator_data q) \<le> rq_pos (rq q r) \<and>
      (\<forall>y \<in> set (sort_list (elevator_data q)).
          last_sector (elevator_data q) \<le> rq_pos (rq q y) \<longrightarrow> rq_pos (rq q r) \<le> rq_pos (rq q y)) \<and>
      last_sector (elevator_data (snd (dispatch_next now q))) = rq_pos (rq q r) \<and>
      last_dir (elevator_data (snd (dispatch_next now q))) = Forward"
proof -
  from fw have ne: "sort_list (elevator_data q) \<noteq> []"
    by (auto simp: has_forward_def)
  from distance_rule_scan [OF fw [unfolded has_forward_def]] pen
  obtain f where f: "distance_choice q = Some (f, Forward)" "f \<in> set (sort_list (elevator_data q))"
    "last_sector (elevator_data q) \<le> rq_pos (rq q f)"
    "\<forall>y \<in> set (sort_list (elevator_data q)).
        last_sector (elevator_data q) \<le> rq_pos (rq q y) \<longrightarrow> rq_pos (rq q f) \<le> rq_pos (rq q y)"
    by (auto simp: distance_choice_def Let_def)
  have "dispatch_next now q =
      (Some f, remove_request f
         (q\<lparr>elevator_data := sweep_update Forward (rq_data_dir (rq q f)) (elevator_data q)\<rparr>))"
    using ne nf ns f(1) by (simp add: dispatch_next_def)
  with f show ?thesis
    by (simp add: remove_request_def sweep_update_def)
qed

lemma scan_run_sorted:
  assumes "rev_penalty (elevator_data q) = 0" and "plain_forward_run ts q"
  shows "sorted (last_sector (elevator_data q) # dispatched_sectors ts q) \<and>
    length (dispatched_sectors ts q) = length ts"
  using assms
proof (induction ts arbitrary: q)
  case Nil
  then show ?case by simp
next
  case (Cons now ts)
  from Cons.prems have nf: "forced_choice q now = None" and ns: "starvation_choice q = None"
    and fw: "has_forward q" and rest: "plain_forward_run ts (snd (dispatch_next now q))"
    by simp_all
  from dispatch_next_scan_step [OF Cons.prems(1) nf ns fw]
  obtain r where r: "fst (dispatch_next now q) = Some r"
    "last_sector (elevator_data q) \<le> rq_pos (rq q r)"
    "last_sector (elevator_data (snd (dispatch_next now q))) = rq_pos (rq q r)" by blast
  have pen': "rev_penalty (elevator_data (snd (dispatch_next now q))) = 0"
    using Cons.prems(1) by (simp add: dispatch_next_rev_penalty)
  from Cons.IH [OF pen' rest] r(3)
  have ih: "sorted (rq_pos (rq q r) # dispatched_sectors ts (snd (dispatch_next now q)))"
    "length (dispatched_sectors ts (snd (dispatch_next now q))) = length ts" by simp_all
  obtain q' where dn: "dispatch_next now q = (Some r, q')"
    using r(1) by (cases "dispatch_next now q") simp
  with ih r(2) show ?case by auto
qed

lemmas dispatch_defs = dispatch_next_def forced_choice_def expired_fronts_def peek_front_def
  is_expired_def time_before_def starvation_choice_def batch_cutoff_def outstanding_writes_def
  distance_choice_def distance_rule_def successor_def predecessor_def remove_request_def
  sweep_update_def list_del_def has_forward_def Let_def

lemma scan_example_step1:
  "dispatch_next 0 scan_example =
     (Some 2, \<lparr>elevator_data = example_vr_data
        \<lparr>sort_list := [1, 3],
         fifo_list := (\<lambda>s d. removeAll 2 (if s = SYNC \<and> d = READ then [1, 2, 3] else [])),
         last_sector := 16, batched := 1, last_dir := Forward, starved := 1\<rparr>,
      rq = example_rq\<rparr>)"
  by (simp add: scan_example_def zeroed_vr_data_def example_vr_data_def example_rq_def dispatch_defs)

lemma least_by_mem: "least_by key xs = Some x \<Longrightarrow> x \<in> set xs"
  by (induction xs arbitrary: x) (auto split: option.splits if_splits)

lemma greatest_by_mem: "greatest_by key xs = Some x \<Longrightarrow> x \<in> set xs"
  by (induction xs arbitrary: x) (auto split: option.splits if_splits)

lemma least_by_None: "(least_by key xs = None) = (xs = [])"
  by (cases xs) (auto split: option.splits)

lemma greatest_by_None: "(greatest_by key xs = None) = (xs = [])"
  by (cases xs) (auto split: option.splits)

lemma distance_rule_mem:
  "distance_rule pos pen h idx = Some (r, dir) \<Longrightarrow> r \<in> set idx"
  by (auto simp: distance_rule_def successor_def predecessor_def
      split: option.splits if_splits dest: least_by_mem greatest_by_mem)

lemma distance_rule_Some:
  assumes "idx \<noteq> []"
  shows "\<exists>r dir. distance_rule pos pen h idx = Some (r, dir)"
proof -
  from assms obtain x where "x \<in> set idx" by (cases idx) auto
  then have "filter (\<lambda>r. h \<le> pos r) idx \<noteq> [] \<or> filter (\<lambda>r. pos r < h) idx \<noteq> []"
    unfolding filter_empty_conv by (meson not_le_imp_less)
  then have "successor pos idx h \<noteq> None \<or> predecessor pos idx h \<noteq> None"
    by (simp add: successor_def predecessor_def least_by_None greatest_by_None)
  then show ?thesis
    by (auto simp: distance_rule_def split: option.splits)
qed

lemma starvation_choice_write:
  "starvation_choice q = Some w \<Longrightarrow>
     rq_data_dir (rq q w) = WRITE \<and> w \<in> set (sort_list (elevator_data q))"
  by (auto simp: starvation_choice_def Let_def outstanding_writes_def
      split: if_splits dest!: distance_rule_mem)

lemma dispatch_next_override:
  assumes nf: "forced_choice q now = None" and cut: "batch_cutoff (elevator_data q)"
    and st: "writes_starved (elevator_data q) \<le> int (starved (elevator_data q))"
    and w: "outstanding_writes q \<noteq> []"
  shows "\<exists>w dir. fst (dispatch_next now q) = Some w \<and> rq_data_dir (rq q w) = WRITE \<and>
      w \<in> set (sort_list (elevator_data q)) \<and>
      distance_rule (\<lambda>r. rq_pos (rq q r)) (rev_penalty (elevator_data q))
        (last_sector (elevator_data q)) (outstanding_writes q) = Some (w, dir) \<and>
      starved (elevator_data (snd (dispatch_next now q))) = 0"
proof -
  from distance_rule_Some [OF w] obtain r dir where
    d: "distance_rule (\<lambda>r. rq_pos (rq q r)) (rev_penalty (elevator_data q))
        (last_sector (elevator_data q)) (outstanding_writes q) = Some (r, dir)" by blast
  then have sc: "starvation_choice q = Some r"
    using cut st w by (simp add: starvation_choice_def Let_def)
  from w have ne: "sort_list (elevator_data q) \<noteq> []"
    by (auto simp: outstanding_writes_def)
  have "dispatch_next now q =
      (Some r, remove_request r (q\<lparr>elevator_data := (elevator_data q)\<lparr>starved := 0\<rparr>\<rparr>))"
    using ne nf sc by (simp add: dispatch_next_def)
  with starvation_choice_write [OF sc] d show ?thesis
    by (simp add: remove_request_def)
qed

lemma dispatch_next_writes_starved:
  "writes_starved (elevator_data (snd (dispatch_next now q))) = writes_starved (elevator_data q)"
  by (simp add: dispatch_next_def remove_request_def sweep_update_def split: option.splits prod.splits)

lemma read_run_step:
  assumes nf: "forced_choice q now = None" and cut: "batch_cutoff (elevator_data q)"
    and w: "outstanding_writes q \<noteq> []"
    and d: "dispatch_next now q = (Some r, q')" and rd: "rq_data_dir (rq q r) = READ"
  shows "int (starved (elevator_data q)) < writes_starved (elevator_data q) \<and>
    starved (elevator_data q') = starved (elevator_data q) + 1"
proof -
  have st: "int (starved (elevator_data q)) < writes_starved (elevator_data q)"
  proof (rule ccontr)
    assume "\<not> ?thesis"
    then have "writes_starved (elevator_data q) \<le> int (starved (elevator_data q))" by simp
    from dispatch_next_override [OF nf cut this w] d rd show False by auto
  qed
  then have sc: "starvation_choice q = None"
    by (simp add: starvation_choice_def Let_def)
  from w have ne: "sort_list (elevator_data q) \<noteq> []"
    by (auto simp: outstanding_writes_def)
  from d ne nf sc obtain dir where "distance_choice q = Some (r, dir)"
    and "q' = remove_request r
        (q\<lparr>elevator_data := sweep_update dir (rq_data_dir (rq q r)) (elevator_data q)\<rparr>)"
    by (auto simp: dispatch_next_def split: option.splits prod.splits)
  with rd st show ?thesis
    by (simp add: remove_request_def sweep_update_def)
qed

lemma read_run_bound:
  "read_run ts q \<Longrightarrow>
     int (length ts) \<le> max 0 (writes_starved (elevator_data q) - int (starved (elevator_data q)))"
proof (induction ts arbitrary: q)
  case Nil
  then show ?case by simp
next
  case (Cons now ts)
  from Cons.prems obtain r q' where nf: "forced_choice q now = None"
    and cut: "batch_cutoff (elevator_data q)" and w: "outstanding_writes q \<noteq> []"
    and d: "dispatch_next now q = (Some r, q')" and rd: "rq_data_dir (rq q r) = READ"
    and rest: "read_run ts q'"
    by (auto split: option.splits prod.splits)
  from read_run_step [OF nf cut w d rd]
  have st: "int (starved (elevator_data q)) < writes_starved (elevator_data q)"
    and st': "starved (elevator_data q') = starved (elevator_data q) + 1" by simp_all
  have ws: "writes_starved (elevator_data q') = writes_starved (elevator_data q)"
    using dispatch_next_writes_starved [of now q] d by simp
  from Cons.IH [OF rest] st st' ws show ?case by simp
qed

text \<open>
  C4. With a reversal penalty of 0: in a run of dispatches none of which is forced by a
  deadline or by the starvation override and each of which finds a forward candidate, the
  dispatched sectors, the last dispatched sector before the run first, are non-decreasing
  and every call dispatches; and any single such call dispatches the nearest request at or
  beyond the last dispatched sector and records the forward direction, so no backward
  dispatch occurs while a forward candidate exists.
\<close>

theorem scan_never_reverses:
  assumes "rev_penalty (elevator_data q) = 0"
  shows "(plain_forward_run ts q \<longrightarrow>
       sorted (last_sector (elevator_data q) # dispatched_sectors ts q) \<and>
       length (dispatched_sectors ts q) = length ts) \<and>
    (forced_choice q now = None \<and> starvation_choice q = None \<and> has_forward q \<longrightarrow>
       (\<exists>r. fst (dispatch_next now q) = Some r \<and> r \<in> set (sort_list (elevator_data q)) \<and>
          last_sector (elevator_data q) \<le> rq_pos (rq q r) \<and>
          (\<forall>y \<in> set (sort_list (elevator_data q)).
             last_sector (elevator_data q) \<le> rq_pos (rq q y) \<longrightarrow> rq_pos (rq q r) \<le> rq_pos (rq q y)) \<and>
          last_sector (elevator_data (snd (dispatch_next now q))) = rq_pos (rq q r) \<and>
          last_dir (elevator_data (snd (dispatch_next now q))) = Forward))"
  using scan_run_sorted [OF assms, of ts] dispatch_next_scan_step [OF assms, of now]
  by blast

lemma scan_example_run: "plain_forward_run [0, 0] scan_example"
  by (simp add: scan_example_def zeroed_vr_data_def example_vr_data_def example_rq_def dispatch_defs)

lemma scan_example_sectors: "dispatched_sectors [0, 0] scan_example = [16, 24]"
  by (simp add: scan_example_def zeroed_vr_data_def example_vr_data_def example_rq_def dispatch_defs)

theorem scan_never_reverses_witness:
  "rev_penalty (elevator_data scan_example) = 0 \<and> plain_forward_run [0, 0] scan_example \<and>
   last_sector (elevator_data scan_example) = 10 \<and> rq_pos (rq scan_example 1) = 8 \<and>
   1 \<in> set (sort_list (elevator_data scan_example)) \<and>
   dispatched_sectors [0, 0] scan_example = [16, 24] \<and>
   sorted (last_sector (elevator_data scan_example) # dispatched_sectors [0, 0] scan_example) \<and>
   fst (dispatch_next 0 scan_example) = Some 2"
proof -
  have pen: "rev_penalty (elevator_data scan_example) = 0"
    by (simp add: scan_example_def zeroed_vr_data_def example_vr_data_def)
  have "sorted (last_sector (elevator_data scan_example) # dispatched_sectors [0, 0] scan_example)"
    using scan_never_reverses [OF pen, of "[0, 0]" 0] scan_example_run by blast
  then show ?thesis
    using pen scan_example_run scan_example_sectors scan_example_step1
    by (simp add: scan_example_def zeroed_vr_data_def example_vr_data_def example_rq_def)
qed

text \<open>
  C5, as the selection algorithm has it. On a call where no front request has expired
  (step 2 does not fire) and the batched-run counter has reached the batch threshold
  (step 3 passes control to step 4): if the starved counter has reached the starvation
  threshold and a write is in the Sector Index, the call dispatches a write, the one the
  distance rule picks among the writes, and resets the starved counter to 0. A run of
  calls under the same two conditions that dispatches only reads while a write is
  outstanding is no longer than the starvation threshold less the starved counter at its
  start.
\<close>

theorem starvation_override:
  "(forced_choice q now = None \<and> batch_cutoff (elevator_data q) \<and>
    writes_starved (elevator_data q) \<le> int (starved (elevator_data q)) \<and>
    outstanding_writes q \<noteq> [] \<longrightarrow>
      (\<exists>w dir. fst (dispatch_next now q) = Some w \<and> rq_data_dir (rq q w) = WRITE \<and>
         w \<in> set (sort_list (elevator_data q)) \<and>
         distance_rule (\<lambda>r. rq_pos (rq q r)) (rev_penalty (elevator_data q))
           (last_sector (elevator_data q)) (outstanding_writes q) = Some (w, dir) \<and>
         starved (elevator_data (snd (dispatch_next now q))) = 0)) \<and>
   (read_run ts q \<longrightarrow>
      int (length ts) \<le> max 0 (writes_starved (elevator_data q) - int (starved (elevator_data q))))"
  using dispatch_next_override [of q now] read_run_bound [of ts q] by blast

lemma starve_example_fields:
  "writes_starved (elevator_data starve_example) = 1"
  "starved (elevator_data starve_example) = 1"
  "batch_cutoff (elevator_data starve_example)"
  "outstanding_writes starve_example = [3]"
  "rq starve_example = starve_rq"
  by (simp_all add: starve_example_def zeroed_vr_data_def example_vr_data_def starve_rq_def batch_cutoff_def
      outstanding_writes_def)

lemma starve_example_not_expired: "forced_choice starve_example 0 = None"
  by (simp add: starve_example_def zeroed_vr_data_def example_vr_data_def starve_rq_def dispatch_defs)

lemma starve_example_override: "fst (dispatch_next 0 starve_example) = Some 3"
  by (simp add: starve_example_def zeroed_vr_data_def example_vr_data_def starve_rq_def dispatch_defs)

lemma starve_example_read_run:
  "read_run [0] (starve_example\<lparr>elevator_data := (elevator_data starve_example)\<lparr>starved := 0\<rparr>\<rparr>)"
  by (simp add: starve_example_def zeroed_vr_data_def example_vr_data_def starve_rq_def dispatch_defs)

theorem starvation_override_witness:
  "forced_choice starve_example 0 = None \<and> batch_cutoff (elevator_data starve_example) \<and>
   writes_starved (elevator_data starve_example) \<le> int (starved (elevator_data starve_example)) \<and>
   outstanding_writes starve_example = [3] \<and>
   fst (dispatch_next 0 starve_example) = Some 3 \<and> rq_data_dir (rq starve_example 3) = WRITE \<and>
   starved (elevator_data (snd (dispatch_next 0 starve_example))) = 0 \<and>
   read_run [0] (starve_example\<lparr>elevator_data := (elevator_data starve_example)\<lparr>starved := 0\<rparr>\<rparr>) \<and>
   int (length [0 :: 32 word]) \<le>
     max 0 (writes_starved (elevator_data (starve_example\<lparr>elevator_data := (elevator_data starve_example)\<lparr>starved := 0\<rparr>\<rparr>)) -
            int (starved (elevator_data (starve_example\<lparr>elevator_data := (elevator_data starve_example)\<lparr>starved := 0\<rparr>\<rparr>))))"
proof -
  have "starved (elevator_data (snd (dispatch_next 0 starve_example))) = 0"
    using starvation_override [of starve_example 0 "[]"] starve_example_not_expired
    by (auto simp: starve_example_fields)
  moreover have "int (length [0 :: 32 word]) \<le>
     max 0 (writes_starved (elevator_data (starve_example\<lparr>elevator_data := (elevator_data starve_example)\<lparr>starved := 0\<rparr>\<rparr>)) -
            int (starved (elevator_data (starve_example\<lparr>elevator_data := (elevator_data starve_example)\<lparr>starved := 0\<rparr>\<rparr>))))"
    using starvation_override [of "starve_example\<lparr>elevator_data := (elevator_data starve_example)\<lparr>starved := 0\<rparr>\<rparr>" 0 "[0]"]
      starve_example_read_run by blast
  ultimately show ?thesis
    using starve_example_not_expired starve_example_override starve_example_read_run
    by (simp add: starve_example_fields starve_rq_def)
qed

lemma batch_example_step1:
  "dispatch_next 0 batch_example =
      (Some 4, \<lparr>elevator_data = example_vr_data
        \<lparr>sort_list := [3, 5],
         fifo_list := (\<lambda>s d. removeAll 4 (if s = SYNC then (if d = READ then [4, 5] else [3]) else [])),
         fifo_batch := 8, writes_starved := 1, starved := 2, last_sector := 32,
         batched := 1, last_dir := Forward\<rparr>,
      rq = starve_rq\<rparr>)"
  by (simp add: batch_example_def zeroed_vr_data_def example_vr_data_def starve_rq_def dispatch_defs)

lemma batch_example_step2:
  "dispatch_next 0 \<lparr>elevator_data = example_vr_data
        \<lparr>sort_list := [3, 5],
         fifo_list := (\<lambda>s d. removeAll 4 (if s = SYNC then (if d = READ then [4, 5] else [3]) else [])),
         fifo_batch := 8, writes_starved := 1, starved := 2, last_sector := 32,
         batched := 1, last_dir := Forward\<rparr>,
      rq = starve_rq\<rparr> =
      (Some 5, \<lparr>elevator_data = example_vr_data
        \<lparr>sort_list := [3],
         fifo_list := (\<lambda>s d. removeAll 5 (removeAll 4 (if s = SYNC then (if d = READ then [4, 5] else [3]) else []))),
         fifo_batch := 8, writes_starved := 1, starved := 3, last_sector := 40,
         batched := 2, last_dir := Forward\<rparr>,
      rq = starve_rq\<rparr>)"
  by (simp add: zeroed_vr_data_def example_vr_data_def starve_rq_def dispatch_defs)

text \<open>
  C5 as stated fails in two ways. Step 2 comes before the starvation override: with the
  starved counter at the threshold of 1 and write 3 outstanding throughout, two calls at
  time 60 dispatch the expired reads 2 and 4, two consecutive reads, and no write. And
  the override is consulted only at the batching cutoff: with no request expired, the
  starved counter at the threshold of 1, write 3 outstanding throughout and the
  batched-run counter below the batch threshold of 8, two calls at time 0 dispatch the
  reads 4 and 5 by the distance rule.
\<close>

theorem reads_pass_starved_write:
  "writes_starved (elevator_data starve_example) = 1 \<and>
   starved (elevator_data starve_example) = 1 \<and>
   batch_cutoff (elevator_data starve_example) \<and>
   outstanding_writes starve_example = [3] \<and>
   fst (dispatch_next 60 starve_example) = Some 2 \<and>
   rq_data_dir (rq starve_example 2) = READ \<and>
   outstanding_writes (snd (dispatch_next 60 starve_example)) = [3] \<and>
   fst (dispatch_next 60 (snd (dispatch_next 60 starve_example))) = Some 4 \<and>
   rq_data_dir (rq starve_example 4) = READ \<and>
   outstanding_writes (snd (dispatch_next 60 (snd (dispatch_next 60 starve_example)))) = [3] \<and>
   writes_starved (elevator_data batch_example) = 1 \<and>
   starved (elevator_data batch_example) = 1 \<and>
   \<not> batch_cutoff (elevator_data batch_example) \<and>
   outstanding_writes batch_example = [3] \<and>
   forced_choice batch_example 0 = None \<and>
   fst (dispatch_next 0 batch_example) = Some 4 \<and>
   rq_data_dir (rq batch_example 4) = READ \<and>
   outstanding_writes (snd (dispatch_next 0 batch_example)) = [3] \<and>
   forced_choice (snd (dispatch_next 0 batch_example)) 0 = None \<and>
   fst (dispatch_next 0 (snd (dispatch_next 0 batch_example))) = Some 5 \<and>
   rq_data_dir (rq batch_example 5) = READ \<and>
   outstanding_writes (snd (dispatch_next 0 (snd (dispatch_next 0 batch_example)))) = [3]"
proof -
  have 1: "dispatch_next 60 starve_example =
      (Some 2, \<lparr>elevator_data = example_vr_data
        \<lparr>sort_list := [3, 4],
         fifo_list := (\<lambda>s d. removeAll 2 (if s = SYNC then (if d = READ then [2, 4] else [3]) else [])),
         writes_starved := 1, starved := 1, last_sector := 16\<rparr>,
      rq = starve_rq\<rparr>)"
    by (simp add: starve_example_def zeroed_vr_data_def example_vr_data_def starve_rq_def dispatch_defs)
  have 2: "dispatch_next 60 \<lparr>elevator_data = example_vr_data
        \<lparr>sort_list := [3, 4],
         fifo_list := (\<lambda>s d. removeAll 2 (if s = SYNC then (if d = READ then [2, 4] else [3]) else [])),
         writes_starved := 1, starved := 1, last_sector := 16\<rparr>,
      rq = starve_rq\<rparr> =
      (Some 4, \<lparr>elevator_data = example_vr_data
        \<lparr>sort_list := [3],
         fifo_list := (\<lambda>s d. removeAll 4 (removeAll 2 (if s = SYNC then (if d = READ then [2, 4] else [3]) else []))),
         writes_starved := 1, starved := 1, last_sector := 32\<rparr>,
      rq = starve_rq\<rparr>)"
    by (simp add: zeroed_vr_data_def example_vr_data_def starve_rq_def dispatch_defs)
  have a: "writes_starved (elevator_data starve_example) = 1 \<and>
   starved (elevator_data starve_example) = 1 \<and>
   batch_cutoff (elevator_data starve_example) \<and>
   outstanding_writes starve_example = [3] \<and>
   fst (dispatch_next 60 starve_example) = Some 2 \<and>
   rq_data_dir (rq starve_example 2) = READ \<and>
   outstanding_writes (snd (dispatch_next 60 starve_example)) = [3] \<and>
   fst (dispatch_next 60 (snd (dispatch_next 60 starve_example))) = Some 4 \<and>
   rq_data_dir (rq starve_example 4) = READ \<and>
   outstanding_writes (snd (dispatch_next 60 (snd (dispatch_next 60 starve_example)))) = [3]"
    unfolding 1 2 fst_conv snd_conv
    by (simp add: starve_example_fields) (simp add: outstanding_writes_def starve_rq_def zeroed_vr_data_def example_vr_data_def)
  have f: "writes_starved (elevator_data batch_example) = 1"
    "starved (elevator_data batch_example) = 1"
    "\<not> batch_cutoff (elevator_data batch_example)"
    "outstanding_writes batch_example = [3]"
    "rq batch_example = starve_rq"
    by (simp_all add: batch_example_def zeroed_vr_data_def example_vr_data_def starve_rq_def
        batch_cutoff_def outstanding_writes_def)
  have n1: "forced_choice batch_example 0 = None"
    by (simp add: batch_example_def zeroed_vr_data_def example_vr_data_def starve_rq_def dispatch_defs)
  have b: "forced_choice batch_example 0 = None \<and>
   fst (dispatch_next 0 batch_example) = Some 4 \<and>
   rq_data_dir (rq batch_example 4) = READ \<and>
   outstanding_writes (snd (dispatch_next 0 batch_example)) = [3] \<and>
   forced_choice (snd (dispatch_next 0 batch_example)) 0 = None \<and>
   fst (dispatch_next 0 (snd (dispatch_next 0 batch_example))) = Some 5 \<and>
   rq_data_dir (rq batch_example 5) = READ \<and>
   outstanding_writes (snd (dispatch_next 0 (snd (dispatch_next 0 batch_example)))) = [3]"
    unfolding batch_example_step1 batch_example_step2 fst_conv snd_conv
    using n1
    by (simp add: f) (simp add: outstanding_writes_def starve_rq_def zeroed_vr_data_def
        example_vr_data_def dispatch_defs)
  from a b f(1-4) show ?thesis by blast
qed

subsection \<open>The order of the Deadline Queues\<close>

lemma sint_nonneg_of_small:
  fixes w :: "'l::len word"
  assumes "unat w < 2 ^ (LENGTH('l) - 1)"
  shows "0 \<le> sint w"
proof -
  have "uint w < 2 ^ (LENGTH('l) - 1)"
    using assms by (metis of_nat_less_iff of_nat_numeral of_nat_power uint_nat)
  then have "signed_take_bit (LENGTH('l) - Suc 0) (uint w) = uint w"
    by (intro signed_take_bit_int_eq_self) (auto intro: order_trans [of _ 0])
  then show ?thesis by (simp add: sint_uint)
qed

lemma not_time_before_of_ages:
  fixes x f b :: "'l::len word"
  assumes le: "unat (f - b) \<le> unat (x - b)" and small: "unat (x - b) < 2 ^ (LENGTH('l) - 1)"
  shows "\<not> time_before x f"
proof -
  have wle: "f - b \<le> x - b" using le by (simp add: word_le_nat_alt)
  have "unat ((x - b) - (f - b)) = unat (x - b) - unat (f - b)"
    using wle by (rule unat_sub)
  also have "\<dots> < 2 ^ (LENGTH('l) - 1)" using small by simp
  finally have "0 \<le> sint ((x - b) - (f - b))" by (rule sint_nonneg_of_small)
  moreover have "(x - b) - (f - b) = x - f" by simp
  ultimately show ?thesis by (simp add: time_before_def)
qed

lemma unat_word_of_nat_small:
  assumes "d < 2 ^ (LENGTH('l::len) - 1)"
  shows "unat (word_of_nat d :: 'l word) = d"
proof -
  have "(2::nat) ^ (LENGTH('l) - 1) \<le> 2 ^ LENGTH('l)"
    by (rule power_increasing) simp_all
  with assms have "d < 2 ^ LENGTH('l)" by (rule less_le_trans)
  then show ?thesis by (simp add: unat_of_nat)
qed

lemma fifo_age_cong:
  assumes "rq q' = rq q"
    and "fifo_expire (elevator_data q') = fifo_expire (elevator_data q)"
  shows "fifo_age j0 q' s d = fifo_age j0 q s d"
  using assms by (simp add: fifo_age_def fun_eq_iff)

lemma fifo_inv_cong:
  assumes r: "rq q' = rq q"
    and e: "fifo_expire (elevator_data q') = fifo_expire (elevator_data q)"
    and l: "fifo_list (elevator_data q') = fifo_list (elevator_data q)"
  shows "fifo_inv j0 t q' = fifo_inv j0 t q"
proof -
  have "fifo_lists (elevator_data q') = fifo_lists (elevator_data q)"
    by (simp add: fifo_lists_def l)
  then show ?thesis
    unfolding fifo_inv_def by (simp add: fifo_age_cong [OF r e] l)
qed

lemma fifo_inv_mono:
  assumes "fifo_inv j0 t q" and "t \<le> t'"
  shows "fifo_inv j0 t' q"
  using assms unfolding fifo_inv_def by (meson order_trans)

lemma concat_fifo_lists_list_del:
  assumes "fifo_list vd' = list_del r (fifo_list vd)"
  shows "concat (fifo_lists vd') = removeAll r (concat (fifo_lists vd))"
  using assms by (simp add: fifo_lists_def list_del_def)

lemma fifo_inv_list_del:
  assumes inv: "fifo_inv j0 t q" and r: "\<And>x. x \<noteq> r \<Longrightarrow> rq q' x = rq q x"
    and e: "fifo_expire (elevator_data q') = fifo_expire (elevator_data q)"
    and fl: "fifo_list (elevator_data q') = list_del r (fifo_list (elevator_data q))"
  shows "fifo_inv j0 t q'"
proof -
  have age: "fifo_age j0 q' s d x = fifo_age j0 q s d x" if "x \<noteq> r" for s d x
    using r [OF that] e by (simp add: fifo_age_def)
  from inv have d: "distinct (concat (fifo_lists (elevator_data q)))"
    and s: "\<And>s d. sorted (map (fifo_age j0 q s d) (fifo_list (elevator_data q) s d))"
    and b: "\<And>s d x. x \<in> set (fifo_list (elevator_data q) s d) \<Longrightarrow> fifo_age j0 q s d x \<le> t"
    unfolding fifo_inv_def by blast+
  have fl': "fifo_list (elevator_data q') s d = removeAll r (fifo_list (elevator_data q) s d)" for s d
    by (simp add: fl list_del_def)
  have m: "map (fifo_age j0 q' s d) (removeAll r (fifo_list (elevator_data q) s d)) =
      map (fifo_age j0 q s d) (removeAll r (fifo_list (elevator_data q) s d))" for s d
    by (rule map_cong) (auto simp: age)
  have "distinct (concat (fifo_lists (elevator_data q')))"
    using d by (simp add: concat_fifo_lists_list_del [OF fl] distinct_removeAll)
  moreover have "sorted (map (fifo_age j0 q' s d) (fifo_list (elevator_data q') s d))" for s d
    unfolding fl' m using s [of s d] by (simp add: removeAll_filter_not_eq sorted_filter)
  moreover have "fifo_age j0 q' s d x \<le> t" if "x \<in> set (fifo_list (elevator_data q') s d)" for s d x
  proof -
    from that have "x \<noteq> r" and "x \<in> set (fifo_list (elevator_data q) s d)"
      unfolding fl' by simp_all
    with age [of x s d] b [of x s d] show ?thesis by simp
  qed
  ultimately show ?thesis unfolding fifo_inv_def by blast
qed

lemma rq_fifo_clear_fields:
  "x \<noteq> r \<Longrightarrow> rq (rq_fifo_clear r q) x = rq q x"
  "fifo_expire (elevator_data (rq_fifo_clear r q)) = fifo_expire (elevator_data q)"
  "fifo_list (elevator_data (rq_fifo_clear r q)) = list_del r (fifo_list (elevator_data q))"
  by (simp_all add: rq_fifo_clear_def)

lemma fifo_inv_clear: "fifo_inv j0 t q \<Longrightarrow> fifo_inv j0 t (rq_fifo_clear r q)"
  by (erule fifo_inv_list_del) (simp_all add: rq_fifo_clear_fields)

lemma remove_request_fields:
  "rq (remove_request r q) = rq q"
  "fifo_expire (elevator_data (remove_request r q)) = fifo_expire (elevator_data q)"
  "fifo_list (elevator_data (remove_request r q)) = list_del r (fifo_list (elevator_data q))"
  by (simp_all add: remove_request_def)

lemma fifo_inv_remove: "fifo_inv j0 t q \<Longrightarrow> fifo_inv j0 t (remove_request r q)"
  by (erule fifo_inv_list_del) (simp_all add: remove_request_fields)

lemma dispatch_next_cases:
  "snd (dispatch_next now q) = q \<or>
   (\<exists>r q1. snd (dispatch_next now q) = remove_request r q1 \<and> rq q1 = rq q \<and>
      fifo_expire (elevator_data q1) = fifo_expire (elevator_data q) \<and>
      fifo_list (elevator_data q1) = fifo_list (elevator_data q))"
proof (cases "sort_list (elevator_data q) = []")
  case True
  then show ?thesis by (simp add: dispatch_next_def)
next
  case ne: False
  show ?thesis
  proof (cases "forced_choice q now")
    case (Some r)
    with ne have "snd (dispatch_next now q) = remove_request r q"
      by (simp add: dispatch_next_def)
    then show ?thesis by blast
  next
    case nf: None
    show ?thesis
    proof (cases "starvation_choice q")
      case (Some r)
      with ne nf have "snd (dispatch_next now q) =
          remove_request r (q\<lparr>elevator_data := (elevator_data q)\<lparr>starved := 0\<rparr>\<rparr>)"
        by (simp add: dispatch_next_def)
      moreover have "rq (q\<lparr>elevator_data := (elevator_data q)\<lparr>starved := 0\<rparr>\<rparr>) = rq q"
        "fifo_expire (elevator_data (q\<lparr>elevator_data := (elevator_data q)\<lparr>starved := 0\<rparr>\<rparr>)) =
           fifo_expire (elevator_data q)"
        "fifo_list (elevator_data (q\<lparr>elevator_data := (elevator_data q)\<lparr>starved := 0\<rparr>\<rparr>)) =
           fifo_list (elevator_data q)"
        by simp_all
      ultimately show ?thesis by blast
    next
      case ns: None
      show ?thesis
      proof (cases "distance_choice q")
        case None
        with ne nf ns show ?thesis by (simp add: dispatch_next_def)
      next
        case (Some p)
        obtain r dir where p: "p = (r, dir)" by (cases p)
        let ?q1 = "q\<lparr>elevator_data := sweep_update dir (rq_data_dir (rq q r)) (elevator_data q)\<rparr>"
        from ne nf ns Some p have "snd (dispatch_next now q) = remove_request r ?q1"
          by (simp add: dispatch_next_def)
        moreover have "rq ?q1 = rq q"
          "fifo_expire (elevator_data ?q1) = fifo_expire (elevator_data q)"
          "fifo_list (elevator_data ?q1) = fifo_list (elevator_data q)"
          by (simp_all add: sweep_update_def)
        ultimately show ?thesis by blast
      qed
    qed
  qed
qed

lemma fifo_inv_dispatch:
  assumes "fifo_inv j0 t q"
  shows "fifo_inv j0 t (snd (dispatch_next now q))"
proof -
  from dispatch_next_cases [of now q] show ?thesis
  proof
    assume "snd (dispatch_next now q) = q"
    with assms show ?thesis by simp
  next
    assume "\<exists>r q1. snd (dispatch_next now q) = remove_request r q1 \<and> rq q1 = rq q \<and>
      fifo_expire (elevator_data q1) = fifo_expire (elevator_data q) \<and>
      fifo_list (elevator_data q1) = fifo_list (elevator_data q)"
    then obtain r q1 where s: "snd (dispatch_next now q) = remove_request r q1"
      and c: "rq q1 = rq q" "fifo_expire (elevator_data q1) = fifo_expire (elevator_data q)"
        "fifo_list (elevator_data q1) = fifo_list (elevator_data q)" by blast
    from assms have "fifo_inv j0 t q1" by (simp add: fifo_inv_cong [OF c])
    then show ?thesis unfolding s by (rule fifo_inv_remove)
  qed
qed

lemma time_before_irrefl: "\<not> time_before x x"
  by (simp add: time_before_def)

lemma fifo_inv_merged_moved:
  assumes inv: "fifo_inv j0 t q"
    and a: "on_fifo (elevator_data q) a" and b: "on_fifo (elevator_data q) b"
    and before: "time_before (rq_fifo_time (rq q b)) (rq_fifo_time (rq q a))"
  shows "fifo_inv j0 t (sio_merged_requests a b q)"
proof -
  let ?repl = "\<lambda>x. if x = b then a else x"
  let ?q' = "sio_merged_requests a b q"
  from before have ne: "a \<noteq> b" using time_before_irrefl by blast
  from inv have d: "distinct (concat (fifo_lists (elevator_data q)))"
    and s: "\<And>s d. sorted (map (fifo_age j0 q s d) (fifo_list (elevator_data q) s d))"
    and bd: "\<And>s d x. x \<in> set (fifo_list (elevator_data q) s d) \<Longrightarrow> fifo_age j0 q s d x \<le> t"
    unfolding fifo_inv_def by blast+
  note eq = sio_merged_requests_moved [OF d a b ne before]
  have fl: "fifo_list (elevator_data ?q') s d =
      map ?repl (removeAll a (fifo_list (elevator_data q) s d))" for s d
    by (simp add: eq)
  have age: "fifo_age j0 ?q' s d (?repl x) = fifo_age j0 q s d x" if "x \<noteq> a" for s d x
    using that ne by (simp add: eq fifo_age_def)
  have m: "map (fifo_age j0 ?q' s d) (fifo_list (elevator_data ?q') s d) =
      map (fifo_age j0 q s d) (removeAll a (fifo_list (elevator_data q) s d))" for s d
    unfolding fl map_map by (rule map_cong) (auto simp: age)
  have "concat (fifo_lists (elevator_data ?q')) =
      map ?repl (removeAll a (concat (fifo_lists (elevator_data q))))"
    by (simp add: fifo_lists_def fl)
  moreover have "inj_on ?repl (set (removeAll a (concat (fifo_lists (elevator_data q)))))"
    by (auto simp: inj_on_def split: if_splits)
  ultimately have "distinct (concat (fifo_lists (elevator_data ?q')))"
    using d by (simp add: distinct_map distinct_removeAll)
  moreover have "sorted (map (fifo_age j0 ?q' s d) (fifo_list (elevator_data ?q') s d))" for s d
    unfolding m using s [of s d] by (simp add: removeAll_filter_not_eq sorted_filter)
  moreover have "fifo_age j0 ?q' s d y \<le> t"
    if "y \<in> set (fifo_list (elevator_data ?q') s d)" for s d y
  proof -
    from that have "y \<in> ?repl ` set (removeAll a (fifo_list (elevator_data q) s d))"
      unfolding fl by simp
    then obtain x where "x \<in> set (removeAll a (fifo_list (elevator_data q) s d))" "y = ?repl x"
      by blast
    then have x: "x \<in> set (fifo_list (elevator_data q) s d)" "x \<noteq> a" "y = ?repl x"
      by simp_all
    with age [of x s d] bd [of x s d] show ?thesis by simp
  qed
  ultimately show ?thesis unfolding fifo_inv_def by blast
qed

lemma fifo_inv_merged:
  assumes "fifo_inv j0 t q"
  shows "fifo_inv j0 t (sio_merged_requests a b q)"
proof (cases "on_fifo (elevator_data q) a \<and> on_fifo (elevator_data q) b \<and>
    time_before (rq_fifo_time (rq q b)) (rq_fifo_time (rq q a))")
  case True
  with assms show ?thesis by (simp add: fifo_inv_merged_moved)
next
  case False
  then have "sio_merged_requests a b q = rq_fifo_clear b q"
    by (rule sio_merged_requests_kept)
  with assms show ?thesis by (simp add: fifo_inv_clear)
qed

lemma vr_add_request_fields:
  "rq (vr_add_request j r q) =
     (rq q)(r := (rq q r)\<lparr>rq_fifo_time :=
        j + word_of_int (fifo_expire (elevator_data q) (rq_is_sync (rq q r)) (rq_data_dir (rq q r)))\<rparr>)"
  "fifo_expire (elevator_data (vr_add_request j r q)) = fifo_expire (elevator_data q)"
  by (simp_all add: vr_add_request_def Let_def rq_set_fifo_time_def)

lemma fifo_inv_add:
  fixes j0 :: "'l::len word"
  assumes inv: "fifo_inv j0 t q" and td: "t \<le> n" and small: "n < 2 ^ (LENGTH('l) - 1)"
    and fresh: "\<not> on_fifo (elevator_data q) r"
  shows "fifo_inv j0 n (vr_add_request (j0 + word_of_nat n) r q)"
proof -
  let ?q' = "vr_add_request (j0 + word_of_nat n) r q"
  let ?s0 = "rq_is_sync (rq q r)" and ?d0 = "rq_data_dir (rq q r)"
  from inv have dist: "distinct (concat (fifo_lists (elevator_data q)))"
    and s: "\<And>s d. sorted (map (fifo_age j0 q s d) (fifo_list (elevator_data q) s d))"
    and bd: "\<And>s d x. x \<in> set (fifo_list (elevator_data q) s d) \<Longrightarrow> fifo_age j0 q s d x \<le> t"
    unfolding fifo_inv_def by blast+
  from fresh have nin: "r \<notin> set (fifo_list (elevator_data q) s d)" for s d
    by (auto simp: on_fifo_iff)
  have age_old: "fifo_age j0 ?q' s d x = fifo_age j0 q s d x" if "x \<noteq> r" for s d x
    using that by (simp add: fifo_age_def vr_add_request_fields)
  have age_new: "fifo_age j0 ?q' ?s0 ?d0 r = n"
    using unat_word_of_nat_small [OF small]
    by (simp add: fifo_age_def vr_add_request_fields)
  have m: "map (fifo_age j0 ?q' s d) (fifo_list (elevator_data q) s d) =
      map (fifo_age j0 q s d) (fifo_list (elevator_data q) s d)" for s d
  proof (rule map_cong)
    fix x
    assume "x \<in> set (fifo_list (elevator_data q) s d)"
    with nin [of s d] have "x \<noteq> r" by blast
    then show "fifo_age j0 ?q' s d x = fifo_age j0 q s d x" by (rule age_old)
  qed simp
  have "distinct (concat (fifo_lists (elevator_data ?q')))"
    using dist nin
    by (cases ?s0; cases ?d0) (simp_all add: fifo_lists_def vr_add_request_fifo_list)
  moreover have "sorted (map (fifo_age j0 ?q' s d) (fifo_list (elevator_data ?q') s d))" for s d
  proof (cases "s = ?s0 \<and> d = ?d0")
    case True
    have "\<forall>x \<in> set (fifo_list (elevator_data q) s d). fifo_age j0 q s d x \<le> n"
      using bd [of _ s d] td by (meson order_trans)
    from True have leq: "fifo_list (elevator_data ?q') s d = fifo_list (elevator_data q) s d @ [r]"
      by (simp add: vr_add_request_fifo_list)
    from True age_new have age_new': "fifo_age j0 ?q' s d r = n" by simp
    have "map (fifo_age j0 ?q' s d) (fifo_list (elevator_data ?q') s d) =
        map (fifo_age j0 q s d) (fifo_list (elevator_data q) s d) @ [n]"
      by (simp only: leq map_append m list.map age_new')
    with s [of s d] \<open>\<forall>x \<in> set (fifo_list (elevator_data q) s d). fifo_age j0 q s d x \<le> n\<close>
    show ?thesis
      by (simp add: sorted_append)
  next
    case False
    then have "fifo_list (elevator_data ?q') s d = fifo_list (elevator_data q) s d"
      by (auto simp: vr_add_request_fifo_list)
    then have "map (fifo_age j0 ?q' s d) (fifo_list (elevator_data ?q') s d) =
        map (fifo_age j0 q s d) (fifo_list (elevator_data q) s d)"
      by (simp only: m)
    with s [of s d] show ?thesis
      by simp
  qed
  moreover have "fifo_age j0 ?q' s d x \<le> n"
    if "x \<in> set (fifo_list (elevator_data ?q') s d)" for s d x
  proof (cases "x = r")
    case True
    with that nin [of s d] have "s = ?s0 \<and> d = ?d0"
      by (simp add: vr_add_request_fifo_list split: if_splits)
    with True age_new show ?thesis by simp
  next
    case False
    with that have "x \<in> set (fifo_list (elevator_data q) s d)"
      by (simp add: vr_add_request_fifo_list split: if_splits)
    with bd [of x s d] td False show ?thesis by (simp add: age_old)
  qed
  ultimately show ?thesis unfolding fifo_inv_def by blast
qed

lemma sio_merged_requests_fifo_expire:
  "fifo_expire (elevator_data (sio_merged_requests a b q)) = fifo_expire (elevator_data q)"
  by (simp add: sio_merged_requests_def rq_fifo_clear_def rq_set_fifo_time_def Let_def)

lemma dispatch_next_fifo_expire:
  "fifo_expire (elevator_data (snd (dispatch_next now q))) = fifo_expire (elevator_data q)"
  using dispatch_next_cases [of now q] by (auto simp: remove_request_fields)

lemma run_event_fifo_expire:
  "fifo_expire (elevator_data (run_event j0 e q)) = fifo_expire (elevator_data q)"
  by (cases e)
    (simp_all add: vr_add_request_fields sio_merged_requests_fifo_expire rq_fifo_clear_fields
      dispatch_next_fifo_expire)

lemma run_events_fifo_expire:
  "fifo_expire (elevator_data (run_events j0 es q)) = fifo_expire (elevator_data q)"
  by (induction es arbitrary: q) (simp_all add: run_event_fifo_expire)

lemma run_events_inv:
  fixes j0 :: "'l::len word"
  assumes "valid_events j0 t es q" and "fifo_inv j0 t q" and "t < 2 ^ (LENGTH('l) - 1)"
  shows "\<exists>t'. t' < 2 ^ (LENGTH('l) - 1) \<and> fifo_inv j0 t' (run_events j0 es q)"
  using assms
proof (induction es arbitrary: t q)
  case Nil
  then show ?case by auto
next
  case (Cons e es)
  show ?case
  proof (cases e)
    case (Add n r)
    with Cons.prems have v: "t \<le> n" "n < 2 ^ (LENGTH('l) - 1)" "\<not> on_fifo (elevator_data q) r"
      "valid_events j0 n es (run_event j0 (Add n r) q)" by simp_all
    have "fifo_inv j0 n (run_event j0 (Add n r) q)"
      using fifo_inv_add [OF Cons.prems(2) v(1) v(2) v(3)] by simp
    from Cons.IH [OF v(4) this v(2)] Add show ?thesis by simp
  next
    case (Merged a b)
    with Cons.prems have v: "valid_events j0 t es (run_event j0 e q)" by simp
    have "fifo_inv j0 t (run_event j0 e q)"
      using Cons.prems(2) Merged by (simp add: fifo_inv_merged)
    from Cons.IH [OF v this Cons.prems(3)] show ?thesis by simp
  next
    case (Clear r)
    with Cons.prems have v: "valid_events j0 t es (run_event j0 e q)" by simp
    have "fifo_inv j0 t (run_event j0 e q)"
      using Cons.prems(2) Clear by (simp add: fifo_inv_clear)
    from Cons.IH [OF v this Cons.prems(3)] show ?thesis by simp
  next
    case (Dispatch now)
    with Cons.prems have v: "valid_events j0 t es (run_event j0 e q)" by simp
    have "fifo_inv j0 t (run_event j0 e q)"
      using Cons.prems(2) Dispatch by (simp add: fifo_inv_dispatch)
    from Cons.IH [OF v this Cons.prems(3)] show ?thesis by simp
  qed
qed

lemma fifo_inv_empty:
  assumes "\<forall>s d. fifo_list (elevator_data q) s d = []"
  shows "fifo_inv j0 0 q"
  using assms by (simp add: fifo_inv_def fifo_lists_def)

lemma fifo_inv_front:
  fixes j0 :: "'l::len word"
  assumes inv: "fifo_inv j0 t q" and small: "t < 2 ^ (LENGTH('l) - 1)"
    and front: "peek_front (elevator_data q) s d = Some f"
    and x: "x \<in> set (fifo_list (elevator_data q) s d)"
  shows "\<not> time_before (rq_fifo_time (rq q x)) (rq_fifo_time (rq q f))"
proof -
  from front obtain rest where l: "fifo_list (elevator_data q) s d = f # rest"
    by (auto simp: peek_front_def split: list.splits)
  from inv have s: "sorted (map (fifo_age j0 q s d) (fifo_list (elevator_data q) s d))"
    and b: "fifo_age j0 q s d x \<le> t"
    using x unfolding fifo_inv_def by blast+
  from s x have "fifo_age j0 q s d f \<le> fifo_age j0 q s d x"
    unfolding l by auto
  moreover from b small have "fifo_age j0 q s d x < 2 ^ (LENGTH('l) - 1)" by simp
  ultimately show ?thesis
    unfolding fifo_age_def by (rule not_time_before_of_ages)
qed

text \<open>
  C6, as the file has it. Take a queue whose fifo lists are empty and any valid run of
  submissions, merges, removals and dispatches from it; the expire durations are then
  those of the start for the whole run. In the state reached, the front entry of every
  non-empty Deadline Queue has an expiration that no entry of the queue precedes.
\<close>

theorem peek_front_earliest:
  fixes j0 :: "'l::len word"
  assumes "\<forall>s d. fifo_list (elevator_data q0) s d = []"
    and "valid_events j0 0 es q0"
    and "peek_front (elevator_data (run_events j0 es q0)) s d = Some f"
    and "x \<in> set (fifo_list (elevator_data (run_events j0 es q0)) s d)"
  shows "\<not> time_before (rq_fifo_time (rq (run_events j0 es q0) x))
        (rq_fifo_time (rq (run_events j0 es q0) f)) \<and>
    fifo_expire (elevator_data (run_events j0 es q0)) = fifo_expire (elevator_data q0)"
proof -
  have "(0::nat) < 2 ^ (LENGTH('l) - 1)" by simp
  from run_events_inv [OF assms(2) fifo_inv_empty [OF assms(1)] this]
  obtain t where "t < 2 ^ (LENGTH('l) - 1)" "fifo_inv j0 t (run_events j0 es q0)" by blast
  from fifo_inv_front [OF this(2) this(1) assms(3) assms(4)] show ?thesis
    by (simp add: run_events_fifo_expire)
qed

lemma fresh_example_eq:
  "new_queue example_tunables example_rq = Some fresh_example"
  by (simp add: fresh_example_def new_queue_def vr_init_queue_Some)

lemma fresh_example_fields:
  "fifo_list (elevator_data fresh_example) s d = []"
  "fifo_expire (elevator_data fresh_example) s d =
     (if d = READ then (if s = SYNC then 50 else 400) else 0)"
  "rq fresh_example = example_rq"
  by (simp_all add: fresh_example_def new_queue_def vr_init_queue_Some zeroed_vr_data_def
      example_tunables_def)

lemma fresh_example_run:
  "fifo_list (elevator_data (run_events 0 [Add 0 2, Add 3 4] fresh_example)) SYNC READ = [2, 4]"
  "rq_fifo_time (rq (run_events 0 [Add 0 2, Add 3 4] fresh_example) 2) = 50"
  "rq_fifo_time (rq (run_events 0 [Add 0 2, Add 3 4] fresh_example) 4) = 53"
  by (simp_all add: vr_add_request_def Let_def rq_set_fifo_time_def list_add_tail_def
      fresh_example_fields example_rq_def)

lemma fresh_example_valid: "valid_events 0 0 [Add 0 2, Add 3 4] fresh_example"
  by (simp add: on_fifo_iff vr_add_request_fifo_list fresh_example_fields example_rq_def)

theorem peek_front_earliest_witness:
  "(\<forall>s d. fifo_list (elevator_data fresh_example) s d = []) \<and>
   valid_events 0 0 [Add 0 2, Add 3 4] fresh_example \<and>
   peek_front (elevator_data (run_events 0 [Add 0 2, Add 3 4] fresh_example)) SYNC READ = Some 2 \<and>
   4 \<in> set (fifo_list (elevator_data (run_events 0 [Add 0 2, Add 3 4] fresh_example)) SYNC READ) \<and>
   rq_fifo_time (rq (run_events 0 [Add 0 2, Add 3 4] fresh_example) 2) = 50 \<and>
   rq_fifo_time (rq (run_events 0 [Add 0 2, Add 3 4] fresh_example) 4) = 53 \<and>
   \<not> time_before (rq_fifo_time (rq (run_events 0 [Add 0 2, Add 3 4] fresh_example) 4))
       (rq_fifo_time (rq (run_events 0 [Add 0 2, Add 3 4] fresh_example) 2))"
proof -
  have e: "\<forall>s d. fifo_list (elevator_data fresh_example) s d = []"
    by (simp add: fresh_example_fields)
  have p: "peek_front (elevator_data (run_events 0 [Add 0 2, Add 3 4] fresh_example)) SYNC READ
      = Some 2"
    unfolding peek_front_def fresh_example_run by simp
  have x: "4 \<in> set (fifo_list (elevator_data (run_events 0 [Add 0 2, Add 3 4] fresh_example))
      SYNC READ)"
    unfolding fresh_example_run by simp
  from peek_front_earliest [OF e fresh_example_valid p x] e fresh_example_valid p x
    fresh_example_run(2,3)
  show ?thesis by simp
qed

text \<open>
  C6 as stated fails when an expire duration changes between submissions: request 2 is
  submitted at time 0 with 50 ticks to live, \<open>sync_expire\<close> is then set to 10, and
  request 3, submitted at time 5, expires at 15. The front of the queue is request 2, and
  request 3 expires before it.
\<close>

theorem peek_front_after_reconfiguration:
  "new_queue example_tunables example_rq = Some fresh_example \<and>
   configure (vr_attrs id id) ''sync_expire'' 10 2 (elevator_data (vr_add_request 0 2 fresh_example))
     \<noteq> None \<and>
   fifo_list (elevator_data reconfigured_example) SYNC READ = [2, 3] \<and>
   peek_front (elevator_data reconfigured_example) SYNC READ = Some 2 \<and>
   rq_fifo_time (rq reconfigured_example 2) = 50 \<and>
   rq_fifo_time (rq reconfigured_example 3) = 15 \<and>
   time_before (rq_fifo_time (rq reconfigured_example 3)) (rq_fifo_time (rq reconfigured_example 2))"
proof -
  have c: "configure (vr_attrs id id) ''sync_expire'' 10 2 vd =
      Some (vd\<lparr>fifo_expire := (fifo_expire vd)(SYNC := (fifo_expire vd SYNC)(READ := 10))\<rparr>, 2)"
    for vd
    by (simp add: configure_def vr_attrs_def vr_sync_expire_store_def STORE_FUNCTION_def
        vr_var_store_def long_to_int_def INT_MAX_def)
  have l: "fifo_list (elevator_data reconfigured_example) SYNC READ = [2, 3]"
    and t2: "rq_fifo_time (rq reconfigured_example 2) = 50"
    and t3: "rq_fifo_time (rq reconfigured_example 3) = 15"
    by (simp_all add: reconfigured_example_def c vr_add_request_def Let_def rq_set_fifo_time_def
        list_add_tail_def fresh_example_fields example_rq_def)
  show ?thesis
    unfolding peek_front_def l t2 t3
    by (simp add: fresh_example_eq c time_before_def)
qed

subsection \<open>Draining an indexed queue\<close>

text \<open>
  The selection algorithm by itself loses and repeats nothing: from a queue whose Sector
  Index holds every queued request, as many calls as the index has requests return each
  of them once, and the next call is idle. The requests that \<open>vr_add_request\<close> queues
  are never in the index, which is why they are not returned.
\<close>

lemma earliest_by_mem: "earliest_by expiry xs = Some x \<Longrightarrow> x \<in> set xs"
  by (induction xs arbitrary: x) (auto split: option.splits if_splits)

lemma forced_choice_on_fifo:
  assumes "forced_choice q now = Some r"
  shows "r \<in> set (concat (fifo_lists (elevator_data q)))"
proof -
  from assms have "r \<in> set (expired_fronts q now)"
    unfolding forced_choice_def by (rule earliest_by_mem)
  then show ?thesis
    by (auto simp: expired_fronts_def peek_front_def fifo_lists_def split: list.splits)
qed

lemma dispatch_next_some:
  assumes ne: "sort_list (elevator_data q) \<noteq> []" and ix: "queues_indexed (elevator_data q)"
  shows "\<exists>r. fst (dispatch_next now q) = Some r \<and> r \<in> set (sort_list (elevator_data q)) \<and>
      sort_list (elevator_data (snd (dispatch_next now q))) = removeAll r (sort_list (elevator_data q)) \<and>
      fifo_list (elevator_data (snd (dispatch_next now q))) = list_del r (fifo_list (elevator_data q))"
proof (cases "forced_choice q now")
  case (Some r)
  from forced_choice_on_fifo [OF Some] ix have "r \<in> set (sort_list (elevator_data q))"
    by (auto simp: queues_indexed_def list_all_iff)
  with ne Some show ?thesis by (simp add: dispatch_next_def remove_request_def)
next
  case nf: None
  show ?thesis
  proof (cases "starvation_choice q")
    case (Some r)
    from starvation_choice_write [OF Some] ne nf Some show ?thesis
      by (simp add: dispatch_next_def remove_request_def)
  next
    case ns: None
    from distance_rule_Some [OF ne] obtain r dir where d: "distance_choice q = Some (r, dir)"
      unfolding distance_choice_def Let_def by blast
    then have "r \<in> set (sort_list (elevator_data q))"
      unfolding distance_choice_def Let_def by (rule distance_rule_mem)
    with ne nf ns d show ?thesis
      by (simp add: dispatch_next_def remove_request_def sweep_update_def)
  qed
qed

lemma queues_indexed_removed:
  assumes "queues_indexed vd" and "sort_list vd' = removeAll r (sort_list vd)"
    and "fifo_list vd' = list_del r (fifo_list vd)"
  shows "queues_indexed vd'"
  using assms
  by (auto simp: queues_indexed_def list_all_iff concat_fifo_lists_list_del [OF assms(3)]
      distinct_removeAll)

lemma dispatch_all_drains:
  assumes "queues_indexed (elevator_data q)" and "length ts = length (sort_list (elevator_data q))"
  shows "\<exists>rs. dispatch_all ts q = map Some rs \<and> distinct rs \<and>
      set rs = set (sort_list (elevator_data q)) \<and>
      fst (dispatch_next now (fold (\<lambda>t q. snd (dispatch_next t q)) ts q)) = None"
  using assms
proof (induction ts arbitrary: q)
  case Nil
  then show ?case by (simp add: dispatch_next_def)
next
  case (Cons t ts)
  then have ne: "sort_list (elevator_data q) \<noteq> []" by auto
  let ?q' = "snd (dispatch_next t q)"
  from dispatch_next_some [OF ne Cons.prems(1), of t] obtain r where
    r: "fst (dispatch_next t q) = Some r" "r \<in> set (sort_list (elevator_data q))"
      "sort_list (elevator_data ?q') = removeAll r (sort_list (elevator_data q))"
      "fifo_list (elevator_data ?q') = list_del r (fifo_list (elevator_data q))" by blast
  from Cons.prems(1) have dist: "distinct (sort_list (elevator_data q))"
    by (simp add: queues_indexed_def)
  have ix': "queues_indexed (elevator_data ?q')"
    using Cons.prems(1) r(3) r(4) by (rule queues_indexed_removed)
  have "length (removeAll r (sort_list (elevator_data q))) = length (sort_list (elevator_data q)) - 1"
    using dist r(2) by (simp add: distinct_remove1_removeAll [symmetric] length_remove1)
  with Cons.prems(2) have len': "length ts = length (sort_list (elevator_data ?q'))"
    by (simp add: r(3))
  from Cons.IH [OF ix' len'] obtain rs where rs: "dispatch_all ts ?q' = map Some rs" "distinct rs"
    "set rs = set (sort_list (elevator_data ?q'))"
    "fst (dispatch_next now (fold (\<lambda>t q. snd (dispatch_next t q)) ts ?q')) = None" by blast
  have "dispatch_all (t # ts) q = map Some (r # rs)" using r(1) rs(1) by simp
  moreover have "distinct (r # rs)" using rs(2) rs(3) r(3) by simp
  moreover have "set (r # rs) = set (sort_list (elevator_data q))"
    using rs(3) r(2) r(3) by auto
  ultimately show ?case using rs(4) by (intro exI [of _ "r # rs"]) simp
qed

text \<open>
  A request merged away stays in the Sector Index (see C3) and is dispatched like any
  other: after request 2 is merged into request 1, three calls return 1, then 2, then
  idle.
\<close>

lemma merged_request_dispatched:
  "dispatch_all [0, 0, 0] (sio_merged_requests 1 2 merge_example) = [Some 1, Some 2, None]"
  unfolding merge_example_merged
  by (simp add: merge_example_def zeroed_vr_data_def example_vr_data_def example_rq_def
      dispatch_defs)

text \<open>
  Expire times further apart than half the range of the counter are not ordered by
  \<open>time_before\<close> as they were stamped: on a 32-bit counter, \<open>2\<^sup>3\<^sup>1 + 150\<close> is
  "before" 50.
\<close>

lemma time_before_half_range: "time_before (2147483798 :: 32 word) 50"
  by (simp add: time_before_def)

end
